theory Spec2Isabelle
  imports Main "HOL-Library.Word" "HOL-Library.Signed_Division"
begin

unbundle bit_operations_syntax

section \<open>NeoStrand: colour codec and pixel-buffer operations\<close>

text \<open>
  A shallow embedding of \<^verbatim>\<open>src/arduino/NeoStrand.h\<close> for the AVR target that the sources
  name (\<^verbatim>\<open>#ifdef __AVR__\<close> in \<^verbatim>\<open>NeoStrand.h\<close>, the port registers \<^verbatim>\<open>PORTB\<close>, \<^verbatim>\<open>PORTC\<close>
  and \<^verbatim>\<open>PORTD\<close> in \<^verbatim>\<open>Generic.h\<close>): \<^verbatim>\<open>int\<close> has 16 bits there, and \<^verbatim>\<open>uint16_t\<close> is
  \<^verbatim>\<open>unsigned int\<close>. The fixed-width types of the source are words: \<^verbatim>\<open>uint8_t\<close> is
  \<open>8 word\<close>, \<^verbatim>\<open>uint16_t\<close> is \<open>16 word\<close>, \<^verbatim>\<open>uint32_t\<close> is \<open>32 word\<close>; every conversion to
  one of them reduces modulo its width (\<open>word_of_int\<close>, \<open>ucast\<close>).

  Arithmetic follows the C rules for that target.
  \<^item> Arithmetic on \<^verbatim>\<open>int\<close> whose every intermediate value stays inside the range of a
    16-bit \<^verbatim>\<open>int\<close> is written on \<open>int\<close> (\<^verbatim>\<open>Wheel\<close>, lemma \<open>Wheel_int_range\<close>).
  \<^item> Arithmetic on \<^verbatim>\<open>unsigned int\<close> wraps modulo \<open>2^16\<close>. It is written on \<open>16 word\<close>
    (\<open>rainbow_hue\<close>, the loop counters), or on \<open>int\<close> with the result reduced to 16
    bits by \<open>word_of_int\<close>, which wraps in the same way (the reduced amount and the pixel
    index of the scrolls, with \<open>smod\<close> for \<^verbatim>\<open>%\<close> on operands that are not negative).
  \<^item> Overflow of a signed \<^verbatim>\<open>int\<close> is undefined behaviour; a function that can run
    into it returns an \<open>option\<close>, and \<open>None\<close> stands for the undefined case
    (\<^verbatim>\<open>Bright\<close>).
  \<^item> Offsets into the pixel buffer are exact numbers: a buffer lies inside the 16-bit
    address space, and there the unsigned products of the scrolls do not wrap (lemma
    \<open>scroll_offsets_16_bit\<close>).
\<close>

type_synonym uint8_t = "8 word"
type_synonym uint16_t = "16 word"
type_synonym uint32_t = "32 word"

subsection \<open>Colour codec\<close>

text \<open>The four channel accessors, \<^verbatim>\<open>NeoStrand.h\<close> lines 35 to 38.\<close>

definition White :: "uint32_t \<Rightarrow> uint8_t" where
  "White color = ucast (drop_bit 24 color AND 0xFF)"

definition Red :: "uint32_t \<Rightarrow> uint8_t" where
  "Red color = ucast (drop_bit 16 color AND 0xFF)"

definition Green :: "uint32_t \<Rightarrow> uint8_t" where
  "Green color = ucast (drop_bit 8 color AND 0xFF)"

definition Blue :: "uint32_t \<Rightarrow> uint8_t" where
  "Blue color = ucast (color AND 0xFF)"

text \<open>
  Modelled from the spec: \<^verbatim>\<open>Color(r, g, b, w)\<close> is a member of the base class
  \<^verbatim>\<open>Adafruit_NeoPixel\<close>, which is not part of the sources. The spec's data model packs
  four 8-bit channels into 32 bits: White in bits 24 to 31, Red in bits 16 to 23, Green
  in bits 8 to 15, Blue in bits 0 to 7. The parameters are \<^verbatim>\<open>uint8_t\<close>, in the order in
  which \<^verbatim>\<open>Bright\<close> passes them.
\<close>

definition ColorW :: "uint8_t \<Rightarrow> uint8_t \<Rightarrow> uint8_t \<Rightarrow> uint8_t \<Rightarrow> uint32_t" where
  "ColorW r g b w =
     push_bit 24 (ucast w) OR push_bit 16 (ucast r) OR push_bit 8 (ucast g) OR ucast b"

text \<open>
  Modelled from the spec: \<^verbatim>\<open>Color(r, g, b)\<close>, the overload of the absent base class with
  three parameters, which \<^verbatim>\<open>Wheel\<close> calls. The same bit layout, with no White channel.
\<close>

definition Color :: "uint8_t \<Rightarrow> uint8_t \<Rightarrow> uint8_t \<Rightarrow> uint32_t" where
  "Color r g b = push_bit 16 (ucast r) OR push_bit 8 (ucast g) OR ucast b"

text \<open>
  The largest value of an \<^verbatim>\<open>int\<close> on the AVR target (\<^verbatim>\<open>INT_MAX\<close> of its
  \<^verbatim>\<open>limits.h\<close>, which is not part of the sources): \<open>2^15 - 1\<close>.
\<close>

definition INT_MAX :: int where
  "INT_MAX = 32767"

text \<open>
  \<^verbatim>\<open>Bright\<close>, lines 42 to 51. \<^verbatim>\<open>factor\<close> is an \<^verbatim>\<open>int\<close> between 1 and 256. Each channel
  is a \<^verbatim>\<open>uint8_t\<close>, promoted to \<^verbatim>\<open>int\<close>; the product with \<^verbatim>\<open>factor\<close> is an \<^verbatim>\<open>int\<close>, and
  one that exceeds \<^verbatim>\<open>INT_MAX\<close> is a signed overflow: the behaviour of the call is then
  undefined, whichever channel it happens in, and the model returns \<open>None\<close>. Otherwise
  each product is divided with truncation, stored in a \<^verbatim>\<open>uint16_t\<close> and narrowed to the
  \<^verbatim>\<open>uint8_t\<close> parameter of \<^verbatim>\<open>Color\<close>.
\<close>

definition Bright :: "uint32_t \<Rightarrow> uint8_t \<Rightarrow> uint32_t option" where
  "Bright color bright =
     (let factor = uint bright;
          factor = factor + 1
      in if INT_MAX < uint (White color) * factor \<or> INT_MAX < uint (Red color) * factor \<or>
            INT_MAX < uint (Green color) * factor \<or> INT_MAX < uint (Blue color) * factor
         then None
         else
           (let w = (word_of_int (uint (White color) * factor sdiv 256) :: uint16_t);
                r = (word_of_int (uint (Red color) * factor sdiv 256) :: uint16_t);
                g = (word_of_int (uint (Green color) * factor sdiv 256) :: uint16_t);
                b = (word_of_int (uint (Blue color) * factor sdiv 256) :: uint16_t)
            in Some (ColorW (ucast r) (ucast g) (ucast b) (ucast w))))"

text \<open>
  The same lines as a compiler for the target carries them out when it leaves the
  overflow to the hardware: the 16-bit product wraps and is read as two's complement
  (\<open>sint\<close>), and the signed division truncates. This is one outcome of the undefined
  case, not a second model: it agrees with \<open>Bright\<close> wherever that is defined (lemma
  \<open>Bright_wrapped_eq\<close>).
\<close>

definition Bright_wrapped :: "uint32_t \<Rightarrow> uint8_t \<Rightarrow> uint32_t" where
  "Bright_wrapped color bright =
     (let factor = uint bright;
          factor = factor + 1;
          w = (word_of_int (sint (word_of_int (uint (White color) * factor) :: 16 word) sdiv 256) :: uint16_t);
          r = (word_of_int (sint (word_of_int (uint (Red color) * factor) :: 16 word) sdiv 256) :: uint16_t);
          g = (word_of_int (sint (word_of_int (uint (Green color) * factor) :: 16 word) sdiv 256) :: uint16_t);
          b = (word_of_int (sint (word_of_int (uint (Blue color) * factor) :: 16 word) sdiv 256) :: uint16_t)
      in ColorW (ucast r) (ucast g) (ucast b) (ucast w))"

text \<open>
  \<^verbatim>\<open>Wheel\<close>, lines 55 to 67. The parameter is reassigned three times; each assignment
  narrows an \<^verbatim>\<open>int\<close> back to \<^verbatim>\<open>uint8_t\<close>, and so does each argument of \<^verbatim>\<open>Color\<close>. No
  value exceeds \<open>255 * 3\<close> in size, so none leaves the range of \<^verbatim>\<open>int\<close>.
\<close>

definition Wheel :: "uint8_t \<Rightarrow> uint32_t" where
  "Wheel WheelPos0 =
     (let WheelPos = (word_of_int (255 - uint WheelPos0) :: uint8_t) in
      if uint WheelPos < 85 then
        Color (word_of_int (255 - uint WheelPos * 3)) 0 (word_of_int (uint WheelPos * 3))
      else if uint WheelPos < 170 then
        (let WheelPos = (word_of_int (uint WheelPos - 85) :: uint8_t) in
         Color 0 (word_of_int (uint WheelPos * 3)) (word_of_int (255 - uint WheelPos * 3)))
      else
        (let WheelPos = (word_of_int (uint WheelPos - 170) :: uint8_t) in
         Color (word_of_int (uint WheelPos * 3)) (word_of_int (255 - uint WheelPos * 3)) 0))"

subsection \<open>The strand and its external primitives\<close>

text \<open>
  What a caller can observe of a strand besides its buffer: each call of the display
  primitive, with the frame it pushed out, and each blocking wait, in program order.
\<close>

datatype event = is_Show: Show "uint8_t list" | Delay uint32_t

text \<open>
  The state of a \<^verbatim>\<open>NeoStrand\<close> object: the members of the base class that the source
  reads (\<^verbatim>\<open>numLEDs\<close> behind \<^verbatim>\<open>numPixels()\<close>, the buffer \<^verbatim>\<open>pixels\<close>, the channel offsets
  that \<^verbatim>\<open>isRGB\<close> and \<^verbatim>\<open>isRGBW\<close> compare), and the trace of display and wait calls made
  so far.
\<close>

record strand =
  numLEDs :: uint16_t
  pixels :: "uint8_t list"
  rOffset :: uint8_t
  gOffset :: uint8_t
  bOffset :: uint8_t
  wOffset :: uint8_t
  trace :: "event list"

text \<open>Lines 145 to 147.\<close>

definition isRGB :: "strand \<Rightarrow> bool" where
  "isRGB s = (wOffset s = rOffset s)"

definition isRGBW :: "strand \<Rightarrow> bool" where
  "isRGBW s = (wOffset s \<noteq> rOffset s)"

definition bytesPerPixel :: "strand \<Rightarrow> uint8_t" where
  "bytesPerPixel s = (if isRGBW s then 4 else 3)"

text \<open>
  Modelled from the spec: \<^verbatim>\<open>numPixels()\<close> is a member of the base class
  \<^verbatim>\<open>Adafruit_NeoPixel\<close>, which is not part of the sources. In the spec \<^verbatim>\<open>pixelCount\<close>
  is the count of addressable LEDs, fixed at construction.
\<close>

definition numPixels :: "strand \<Rightarrow> uint16_t" where
  "numPixels s = numLEDs s"

text \<open>
  Modelled from the spec: \<^verbatim>\<open>show()\<close> is a member of the absent base class. In the spec
  the display primitive pushes the current buffer contents to the hardware, blocks
  meanwhile, returns nothing and has no failure mode; it does not change the buffer.
\<close>

definition "show" :: "strand \<Rightarrow> strand" where
  "show s = s\<lparr>trace := trace s @ [Show (pixels s)]\<rparr>"

text \<open>
  Modelled from the spec: \<^verbatim>\<open>delay()\<close> is the Arduino core's, not part of the sources.
  In the spec the wait primitive blocks for the given number of milliseconds.
\<close>

definition delay :: "uint32_t \<Rightarrow> strand \<Rightarrow> strand" where
  "delay ms s = s\<lparr>trace := trace s @ [Delay ms]\<rparr>"

text \<open>
  Modelled from the spec: \<^verbatim>\<open>setPixelColor()\<close> is a member of the absent base class. In
  the spec pixel \<open>i\<close> occupies the bytes \<open>i * stride\<close> to \<open>i * stride + stride - 1\<close> of the
  buffer, a write stores the colour's channel bytes there, and the White channel is
  ignored for the RGB layout. The position of each channel inside a pixel is the base
  class's offset member. The spec leaves an index outside the strand to the caller; no
  call in the source passes one, and the model leaves the buffer as it is then.
\<close>

definition setPixelColor :: "uint16_t \<Rightarrow> uint32_t \<Rightarrow> strand \<Rightarrow> strand" where
  "setPixelColor n c s =
     (if n < numLEDs s then
        (let base = unat n * unat (bytesPerPixel s);
             px = (pixels s)[base + unat (rOffset s) := Red c,
                             base + unat (gOffset s) := Green c,
                             base + unat (bOffset s) := Blue c];
             px = (if isRGBW s then px[base + unat (wOffset s) := White c] else px)
         in s\<lparr>pixels := px\<rparr>)
      else s)"

text \<open>
  Modelled from the spec: \<^verbatim>\<open>memmove()\<close> is the C library's, not part of the sources. The
  spec asks for a block copy that is safe on overlapping ranges, equivalent to moving:
  \<open>n\<close> bytes read at offset \<open>src\<close> of the old buffer are written at offset \<open>dst\<close>. The
  source only calls it with both ranges inside the buffer (lemma
  \<open>scroll_move_in_buffer\<close>).
\<close>

definition memmove :: "nat \<Rightarrow> nat \<Rightarrow> nat \<Rightarrow> uint8_t list \<Rightarrow> uint8_t list" where
  "memmove dst src n buf = take dst buf @ take n (drop src buf) @ drop (dst + n) buf"

subsection \<open>Buffer mutators\<close>

text \<open>
  The body of \<^verbatim>\<open>if (wait) { show(); delay(wait); }\<close>, which both wipes run after each
  pixel write. \<^verbatim>\<open>delay\<close> takes an \<^verbatim>\<open>unsigned long\<close>.
\<close>

definition show_and_wait :: "uint16_t \<Rightarrow> strand \<Rightarrow> strand" where
  "show_and_wait wait s = (if wait \<noteq> 0 then delay (ucast wait) (show s) else s)"

text \<open>
  \<^verbatim>\<open>wipeWithColor\<close>, lines 72 to 85. The \<^verbatim>\<open>for\<close> loop is the recursive function on the
  loop counter; \<^verbatim>\<open>numPixels()\<close> is read again at every test, and \<^verbatim>\<open>i++\<close> wraps at
  \<open>2^16\<close>.
\<close>

function wipeWithColor_loop :: "uint16_t \<Rightarrow> uint32_t \<Rightarrow> uint16_t \<Rightarrow> strand \<Rightarrow> strand" where
  "wipeWithColor_loop i color wait s =
     (if i < numPixels s
      then wipeWithColor_loop (i + 1) color wait (show_and_wait wait (setPixelColor i color s))
      else s)"
  by pat_completeness auto
termination
proof (relation "measure (\<lambda>(i, color, wait, s). unat (numLEDs s) - unat i)")
  show "wf (measure (\<lambda>(i, color, wait, s). unat (numLEDs s) - unat i))"
    by simp
next
  fix i :: uint16_t and color :: uint32_t and wait :: uint16_t and s :: strand
  assume "i < numPixels s"
  then have less: "unat i < unat (numLEDs s)"
    by (simp add: numPixels_def word_less_nat_alt)
  moreover have "unat (numLEDs s) < 2 ^ 16"
    using unsigned_less [of "numLEDs s", where ?'a = nat] by simp
  ultimately have "unat i + unat (1 :: uint16_t) < 2 ^ LENGTH(16)"
    by simp
  then have "unat (i + 1) = Suc (unat i)"
    using unat_add_lem [of i 1] by simp
  moreover note less
  moreover have "numLEDs (show_and_wait wait (setPixelColor i color s)) = numLEDs s"
    by (simp add: show_and_wait_def delay_def show_def setPixelColor_def Let_def)
  ultimately show "((i + 1, color, wait, show_and_wait wait (setPixelColor i color s)),
                    (i, color, wait, s))
        \<in> measure (\<lambda>(i, color, wait, s). unat (numLEDs s) - unat i)"
    by simp
qed

definition wipeWithColor :: "uint32_t \<Rightarrow> uint16_t \<Rightarrow> strand \<Rightarrow> strand" where
  "wipeWithColor color wait s =
     (let s = wipeWithColor_loop 0 color wait s
      in if wait = 0 then show s else s)"

text \<open>
  \<^verbatim>\<open>wipeWithRainbow\<close>, lines 92 to 106. In \<^verbatim>\<open>shift + (i * 256 / numPixels())\<close> the
  operands \<^verbatim>\<open>i\<close> and \<^verbatim>\<open>numPixels()\<close> are \<^verbatim>\<open>unsigned int\<close>, so the constant 256 and the
  promoted \<^verbatim>\<open>shift\<close> are converted to \<^verbatim>\<open>unsigned int\<close> too: the product, the quotient
  and the sum are 16-bit unsigned and wrap modulo \<open>2^16\<close>. \<^verbatim>\<open>hue\<close> is a \<^verbatim>\<open>uint16_t\<close>, and
  \<^verbatim>\<open>hue & 0xFF\<close> is narrowed to the \<^verbatim>\<open>uint8_t\<close> parameter of \<^verbatim>\<open>Wheel\<close>. The loop body is
  only reached with \<^verbatim>\<open>numPixels()\<close> nonzero.
\<close>

definition rainbow_hue :: "uint8_t \<Rightarrow> uint16_t \<Rightarrow> uint16_t \<Rightarrow> uint16_t" where
  "rainbow_hue shift i n = ucast shift + (i * 256) div n"

function wipeWithRainbow_loop :: "uint16_t \<Rightarrow> uint8_t \<Rightarrow> uint16_t \<Rightarrow> strand \<Rightarrow> strand" where
  "wipeWithRainbow_loop i shift wait s =
     (if i < numPixels s
      then wipeWithRainbow_loop (i + 1) shift wait
             (show_and_wait wait
                (setPixelColor i (Wheel (ucast (rainbow_hue shift i (numPixels s) AND 0xFF))) s))
      else s)"
  by pat_completeness auto
termination
proof (relation "measure (\<lambda>(i, shift, wait, s). unat (numLEDs s) - unat i)")
  show "wf (measure (\<lambda>(i, shift, wait, s). unat (numLEDs s) - unat i))"
    by simp
next
  fix i :: uint16_t and shift :: uint8_t and wait :: uint16_t and s :: strand
  define s' where
    "s' = show_and_wait wait
            (setPixelColor i (Wheel (ucast (rainbow_hue shift i (numPixels s) AND 0xFF))) s)"
  assume "i < numPixels s"
  then have less: "unat i < unat (numLEDs s)"
    by (simp add: numPixels_def word_less_nat_alt)
  moreover have "unat (numLEDs s) < 2 ^ 16"
    using unsigned_less [of "numLEDs s", where ?'a = nat] by simp
  ultimately have "unat i + unat (1 :: uint16_t) < 2 ^ LENGTH(16)"
    by simp
  then have "unat (i + 1) = Suc (unat i)"
    using unat_add_lem [of i 1] by simp
  moreover note less
  moreover have "numLEDs s' = numLEDs s"
    by (simp add: s'_def show_and_wait_def delay_def show_def setPixelColor_def Let_def)
  ultimately show "((i + 1, shift, wait, s'), (i, shift, wait, s))
        \<in> measure (\<lambda>(i, shift, wait, s). unat (numLEDs s) - unat i)"
    by simp
qed

definition wipeWithRainbow :: "uint8_t \<Rightarrow> uint16_t \<Rightarrow> strand \<Rightarrow> strand" where
  "wipeWithRainbow shift wait s =
     (let s = wipeWithRainbow_loop 0 shift wait s
      in if wait = 0 then show s else s)"

text \<open>
  \<^verbatim>\<open>scrollForward\<close>, lines 113 to 124. \<^verbatim>\<open>while (amount--)\<close> tests \<^verbatim>\<open>amount\<close> and then
  decrements it, so the body sees the decremented value. The two arguments of the
  block move that are computed from \<^verbatim>\<open>stride\<close> and \<^verbatim>\<open>amount\<close> are offsets into the
  buffer and are written as exact numbers.
\<close>

function scrollForward_fill :: "uint16_t \<Rightarrow> uint32_t \<Rightarrow> strand \<Rightarrow> strand" where
  "scrollForward_fill amount color s =
     (if amount \<noteq> 0
      then scrollForward_fill (amount - 1) color (setPixelColor (amount - 1) color s)
      else s)"
  by pat_completeness auto
termination
  by (relation "measure (\<lambda>(amount, color, s). unat amount)") (simp_all add: unat_minus_one unat_gt_0)

definition scrollForward :: "uint16_t \<Rightarrow> uint32_t \<Rightarrow> strand \<Rightarrow> strand" where
  "scrollForward amount color s =
     (if numPixels s = 0 then s
      else
        (let stride = (ucast (bytesPerPixel s) :: uint16_t);
             amount = (word_of_int (uint amount smod uint (numPixels s)) :: uint16_t)
         in if amount = 0 then s
            else scrollForward_fill amount color
                   (s\<lparr>pixels :=
                        memmove (nat (uint stride * uint amount)) 0
                          (nat ((uint (numPixels s) - uint amount) * uint stride))
                          (pixels s)\<rparr>)))"

text \<open>\<^verbatim>\<open>scrollBackward\<close>, lines 131 to 142.\<close>

function scrollBackward_fill :: "uint16_t \<Rightarrow> uint32_t \<Rightarrow> strand \<Rightarrow> strand" where
  "scrollBackward_fill amount color s =
     (if amount \<noteq> 0
      then scrollBackward_fill (amount - 1) color
             (setPixelColor (word_of_int (uint (numPixels s) - uint (amount - 1) - 1)) color s)
      else s)"
  by pat_completeness auto
termination
  by (relation "measure (\<lambda>(amount, color, s). unat amount)") (simp_all add: unat_minus_one unat_gt_0)

definition scrollBackward :: "uint16_t \<Rightarrow> uint32_t \<Rightarrow> strand \<Rightarrow> strand" where
  "scrollBackward amount color s =
     (if numPixels s = 0 then s
      else
        (let stride = (ucast (bytesPerPixel s) :: uint16_t);
             amount = (word_of_int (uint amount smod uint (numPixels s)) :: uint16_t)
         in if amount = 0 then s
            else scrollBackward_fill amount color
                   (s\<lparr>pixels :=
                        memmove 0 (nat (uint stride * uint amount))
                          (nat ((uint (numPixels s) - uint amount) * uint stride))
                          (pixels s)\<rparr>)))"

text \<open>
  The loop equations unfold without end under the simplifier's case splitting; the
  proofs apply them one step at a time.
\<close>

declare wipeWithColor_loop.simps [simp del]
declare wipeWithRainbow_loop.simps [simp del]
declare scrollForward_fill.simps [simp del]
declare scrollBackward_fill.simps [simp del]

subsection \<open>Vocabulary of the properties\<close>

text \<open>
  The invariant of the data model: the buffer holds \<open>pixelCount * stride\<close> bytes, and
  the channel offsets of the layout are distinct positions inside one pixel (three of
  them for RGB, four for RGBW).
\<close>

definition channel_offsets :: "strand \<Rightarrow> uint8_t list" where
  "channel_offsets s =
     (if isRGBW s then [rOffset s, gOffset s, bOffset s, wOffset s]
      else [rOffset s, gOffset s, bOffset s])"

definition wf_strand :: "strand \<Rightarrow> bool" where
  "wf_strand s \<longleftrightarrow>
     length (pixels s) = unat (numLEDs s) * unat (bytesPerPixel s) \<and>
     distinct (channel_offsets s) \<and>
     list_all (\<lambda>off. off < bytesPerPixel s) (channel_offsets s)"

text \<open>The bytes of pixel \<open>i\<close>, and what it means for pixel \<open>i\<close> to hold a colour.\<close>

definition pixel_bytes :: "strand \<Rightarrow> nat \<Rightarrow> uint8_t list" where
  "pixel_bytes s i =
     take (unat (bytesPerPixel s)) (drop (i * unat (bytesPerPixel s)) (pixels s))"

definition pixel_holds :: "strand \<Rightarrow> nat \<Rightarrow> uint32_t \<Rightarrow> bool" where
  "pixel_holds s i c \<longleftrightarrow>
     pixel_bytes s i ! unat (rOffset s) = Red c \<and>
     pixel_bytes s i ! unat (gOffset s) = Green c \<and>
     pixel_bytes s i ! unat (bOffset s) = Blue c \<and>
     (if isRGBW s then pixel_bytes s i ! unat (wOffset s) = White c else True)"

text \<open>
  Example strands for the instances below, with an empty trace: the three-byte layout
  with Green at offset 0, Red at 1 and Blue at 2, and the four-byte layout that adds
  White at offset 3. The pixel count is the number of whole pixels in the given buffer.
\<close>

definition strand_rgb :: "uint8_t list \<Rightarrow> strand" where
  "strand_rgb px =
     \<lparr>numLEDs = of_nat (length px div 3), pixels = px,
      rOffset = 1, gOffset = 0, bOffset = 2, wOffset = 1, trace = []\<rparr>"

definition strand_rgbw :: "uint8_t list \<Rightarrow> strand" where
  "strand_rgbw px =
     \<lparr>numLEDs = of_nat (length px div 4), pixels = px,
      rOffset = 1, gOffset = 0, bOffset = 2, wOffset = 3, trace = []\<rparr>"

text \<open>
  The frames of an animated wipe that writes colour \<open>f i\<close> to pixel \<open>i\<close>: one frame per
  pixel of the strand, and in frame \<open>k\<close> the pixels up to \<open>k\<close> hold their colour while
  the pixels beyond \<open>k\<close> still have the bytes they had in \<open>s\<close>.
\<close>

definition wipe_frames :: "strand \<Rightarrow> (nat \<Rightarrow> uint32_t) \<Rightarrow> uint8_t list list \<Rightarrow> bool" where
  "wipe_frames s f frames \<longleftrightarrow>
     length frames = unat (numLEDs s) \<and>
     (\<forall>k<unat (numLEDs s).
        (\<forall>i\<le>k. pixel_holds (s\<lparr>pixels := frames ! k\<rparr>) i (f i)) \<and>
        (\<forall>i. k < i \<longrightarrow> pixel_bytes (s\<lparr>pixels := frames ! k\<rparr>) i = pixel_bytes s i))"

text \<open>The number of display calls in a trace.\<close>

definition display_calls :: "event list \<Rightarrow> nat" where
  "display_calls tr = length (filter is_Show tr)"

text \<open>
  The four loops of the source write pixels along a list of indices, each followed by
  the optional display-and-wait: \<open>paint\<close> is that loop as a fold, with the colour of
  index \<open>j\<close> given by \<open>f j\<close>. The proofs relate each loop to it.
\<close>

definition paint :: "(nat \<Rightarrow> uint32_t) \<Rightarrow> uint16_t \<Rightarrow> nat list \<Rightarrow> strand \<Rightarrow> strand" where
  "paint f wait js s =
     fold (\<lambda>j. show_and_wait wait \<circ> setPixelColor (of_nat j) (f j)) js s"

section \<open>Colour codec: properties\<close>

subsection \<open>Packing and unpacking\<close>

lemma xFF_mask: "(0xFF :: uint32_t) = mask 8"
  by (simp add: mask_eq_exp_minus_1)

lemma White_ColorW: "White (ColorW r g b w) = w"
  unfolding White_def ColorW_def xFF_mask
  by (rule bit_word_eqI) (auto simp: bit_simps dest: bit_imp_le_length)

lemma Red_ColorW: "Red (ColorW r g b w) = r"
  unfolding Red_def ColorW_def xFF_mask
  by (rule bit_word_eqI) (auto simp: bit_simps dest: bit_imp_le_length)

lemma Green_ColorW: "Green (ColorW r g b w) = g"
  unfolding Green_def ColorW_def xFF_mask
  by (rule bit_word_eqI) (auto simp: bit_simps dest: bit_imp_le_length)

lemma Blue_ColorW: "Blue (ColorW r g b w) = b"
  unfolding Blue_def ColorW_def xFF_mask
  by (rule bit_word_eqI) (auto simp: bit_simps dest: bit_imp_le_length)

lemmas channels_ColorW = White_ColorW Red_ColorW Green_ColorW Blue_ColorW

lemma Color_ColorW: "Color r g b = ColorW r g b 0"
  by (simp add: Color_def ColorW_def)

lemma channels_Color:
  "White (Color r g b) = 0" "Red (Color r g b) = r"
  "Green (Color r g b) = g" "Blue (Color r g b) = b"
  by (simp_all only: Color_ColorW channels_ColorW)

lemma accessor_bits:
  "bit (White c) n \<longleftrightarrow> n < 8 \<and> bit c (24 + n)"
  "bit (Red c) n \<longleftrightarrow> n < 8 \<and> bit c (16 + n)"
  "bit (Green c) n \<longleftrightarrow> n < 8 \<and> bit c (8 + n)"
  "bit (Blue c) n \<longleftrightarrow> n < 8 \<and> bit c n"
  unfolding White_def Red_def Green_def Blue_def xFF_mask
  by (auto simp: bit_simps)

text \<open>
  C8. Packing four channel values and reading them back with the four accessors
  returns the same four values, whatever they are; and the accessors read White from
  bits 24 to 31, Red from bits 16 to 23, Green from bits 8 to 15 and Blue from bits 0
  to 7 of any packed colour \<open>c\<close>. The channels are \<^verbatim>\<open>uint8_t\<close>, so every value of the
  type lies in the range 0 to 255.
\<close>

theorem unpack_pack:
  "White (ColorW r g b w) = w \<and> Red (ColorW r g b w) = r \<and>
   Green (ColorW r g b w) = g \<and> Blue (ColorW r g b w) = b \<and>
   (bit (White c) n \<longleftrightarrow> n < 8 \<and> bit c (24 + n)) \<and>
   (bit (Red c) n \<longleftrightarrow> n < 8 \<and> bit c (16 + n)) \<and>
   (bit (Green c) n \<longleftrightarrow> n < 8 \<and> bit c (8 + n)) \<and>
   (bit (Blue c) n \<longleftrightarrow> n < 8 \<and> bit c n)"
  by (simp only: channels_ColorW accessor_bits simp_thms)

subsection \<open>Brightness scaling\<close>

lemma sdiv_nonneg: "0 \<le> a \<Longrightarrow> 0 \<le> b \<Longrightarrow> (a::int) sdiv b = a div b"
  by (simp add: signed_divide_int_def sgn_if)

lemma smod_nonneg: "0 \<le> a \<Longrightarrow> 0 \<le> b \<Longrightarrow> (a::int) smod b = a mod b"
  by (simp add: signed_modulo_int_def sgn_if)

lemma uint8_less: "uint (x :: uint8_t) < 256"
  using uint_lt2p [of x] by simp

lemma uint16_less: "uint (x :: uint16_t) < 65536"
  using uint_lt2p [of x] by simp

lemma channel_product_range:
  fixes ch f :: uint8_t
  shows "0 \<le> uint ch * (uint f + 1)" and "uint ch * (uint f + 1) \<le> 65280"
proof -
  show "0 \<le> uint ch * (uint f + 1)" by simp
  have "uint ch \<le> 255" "uint f + 1 \<le> 256"
    using uint8_less [of ch] uint8_less [of f] by simp_all
  then have "uint ch * (uint f + 1) \<le> 255 * 256"
    by (intro mult_mono) simp_all
  then show "uint ch * (uint f + 1) \<le> 65280" by simp
qed

lemma narrow_16_8:
  assumes "0 \<le> q" "q < 256"
  shows "uint (ucast (word_of_int q :: uint16_t) :: uint8_t) = q"
proof -
  have "uint (word_of_int q :: uint16_t) = q"
    using assms by (simp add: uint_word_of_int)
  then have "(ucast (word_of_int q :: uint16_t) :: uint8_t) = word_of_int q"
    by (simp add: unsigned_of_int take_bit_eq_mod)
  then show ?thesis
    using assms by (simp add: uint_word_of_int)
qed

lemma scaled_channel:
  fixes ch f :: uint8_t
  shows "uint (ucast (word_of_int (uint ch * (uint f + 1) sdiv 256) :: uint16_t) :: uint8_t)
           = uint ch * (uint f + 1) div 256"
proof -
  let ?x = "uint ch * (uint f + 1)"
  have x: "0 \<le> ?x" "?x \<le> 65280" by (rule channel_product_range)+
  have "?x sdiv 256 = ?x div 256"
    using x(1) by (rule sdiv_nonneg) simp
  moreover have "0 \<le> ?x div 256" "?x div 256 < 256"
    using x by (simp_all add: pos_imp_zdiv_nonneg_iff zdiv_mono1 div_less_iff_less_mult)
  ultimately show ?thesis
    by (simp only: narrow_16_8)
qed

text \<open>Where \<^verbatim>\<open>Bright\<close> is defined, each channel is scaled as the truncating quotient.\<close>

lemma Bright_Some:
  assumes "Bright color bright = Some c"
  shows "uint (White c) = uint (White color) * (uint bright + 1) div 256"
    and "uint (Red c) = uint (Red color) * (uint bright + 1) div 256"
    and "uint (Green c) = uint (Green color) * (uint bright + 1) div 256"
    and "uint (Blue c) = uint (Blue color) * (uint bright + 1) div 256"
proof -
  have c: "c = ColorW
      (ucast (word_of_int (uint (Red color) * (uint bright + 1) sdiv 256) :: uint16_t))
      (ucast (word_of_int (uint (Green color) * (uint bright + 1) sdiv 256) :: uint16_t))
      (ucast (word_of_int (uint (Blue color) * (uint bright + 1) sdiv 256) :: uint16_t))
      (ucast (word_of_int (uint (White color) * (uint bright + 1) sdiv 256) :: uint16_t))"
    using assms unfolding Bright_def Let_def by (auto split: if_splits)
  show "uint (White c) = uint (White color) * (uint bright + 1) div 256"
    and "uint (Red c) = uint (Red color) * (uint bright + 1) div 256"
    and "uint (Green c) = uint (Green color) * (uint bright + 1) div 256"
    and "uint (Blue c) = uint (Blue color) * (uint bright + 1) div 256"
    unfolding c by (simp_all only: channels_ColorW scaled_channel)
qed

text \<open>It is undefined exactly when one of the four products exceeds \<^verbatim>\<open>INT_MAX\<close>.\<close>

lemma Bright_None_iff:
  "Bright color bright = None \<longleftrightarrow>
     INT_MAX < uint (White color) * (uint bright + 1) \<or>
     INT_MAX < uint (Red color) * (uint bright + 1) \<or>
     INT_MAX < uint (Green color) * (uint bright + 1) \<or>
     INT_MAX < uint (Blue color) * (uint bright + 1)"
  unfolding Bright_def Let_def by (simp only: split: if_splits) simp

text \<open>With factor 0 the products are the channels themselves, and the result is black.\<close>

lemma Bright_zero: "Bright color 0 = Some 0"
proof -
  have small: "\<not> INT_MAX < uint ch" for ch :: uint8_t
    using uint8_less [of ch] by (simp add: INT_MAX_def)
  have q: "uint ch sdiv 256 = 0" for ch :: uint8_t
    using uint8_less [of ch] by (simp add: sdiv_nonneg)
  show ?thesis
    unfolding Bright_def Let_def by (simp add: small q ColorW_def)
qed

text \<open>
  The wrapped reading agrees with \<^verbatim>\<open>Bright\<close> wherever the latter is defined: a product
  of at most \<^verbatim>\<open>INT_MAX\<close> is its own two's-complement reading.
\<close>

lemma sint16_small:
  assumes "0 \<le> p" "p \<le> INT_MAX"
  shows "sint (word_of_int p :: 16 word) = p"
  using assms by (simp add: INT_MAX_def signed_of_int signed_take_bit_int_eq_self)

lemma Bright_wrapped_eq:
  assumes "Bright color bright = Some c"
  shows "Bright_wrapped color bright = c"
proof -
  have "Bright color bright \<noteq> None"
    using assms by simp
  then have le: "uint (White color) * (uint bright + 1) \<le> INT_MAX"
      "uint (Red color) * (uint bright + 1) \<le> INT_MAX"
      "uint (Green color) * (uint bright + 1) \<le> INT_MAX"
      "uint (Blue color) * (uint bright + 1) \<le> INT_MAX"
    unfolding Bright_None_iff by linarith+
  have s: "sint (word_of_int (uint ch * (uint bright + 1)) :: 16 word) = uint ch * (uint bright + 1)"
    if "uint ch * (uint bright + 1) \<le> INT_MAX" for ch :: uint8_t
    using that by (intro sint16_small) simp_all
  have "Some (Bright_wrapped color bright) = Bright color bright"
    using le unfolding Bright_wrapped_def Bright_def Let_def s [OF le(1)] s [OF le(2)] s [OF le(3)] s [OF le(4)]
    by (simp only: split: if_splits) simp
  then show ?thesis
    using assms by simp
qed

lemma Bright_wrapped_example: "Blue (Bright_wrapped 0x000000FF 199) = 200"
proof -
  have p: "uint (Blue 0x000000FF) * (uint (199 :: uint8_t) + 1) = 51000"
    by (simp add: Blue_def)
  have s: "sint (word_of_int 51000 :: 16 word) = - 14536"
    by (simp add: signed_of_int)
  have d: "(- 14536 :: int) sdiv 256 = - 56"
    by (simp add: signed_divide_int_def)
  have n: "(ucast (word_of_int (- 56) :: uint16_t) :: uint8_t) = 200"
    by simp
  show ?thesis
    unfolding Bright_wrapped_def Let_def Blue_ColorW p s d by (rule n)
qed

text \<open>
  C7, at the colour \<open>0x000000FF\<close> (Blue 255, the other channels 0) and factor 199. The
  claim gives the Blue channel \<open>255 * 200 div 256 = 199\<close>. In the code the product
  \<open>255 * 200 = 51000\<close> is formed as an \<^verbatim>\<open>int\<close>, exceeds \<^verbatim>\<open>INT_MAX\<close> of the target, and
  the call has no defined result; where the product wraps, the Blue channel of the
  result is 200.
\<close>

theorem Bright_product_overflows_int:
  "uint (Blue 0x000000FF) * (uint (199 :: uint8_t) + 1) = 51000 \<and>
   INT_MAX < uint (Blue 0x000000FF) * (uint (199 :: uint8_t) + 1) \<and>
   Bright 0x000000FF 199 = None \<and>
   Blue (Bright_wrapped 0x000000FF 199) = 200 \<and>
   uint (Blue 0x000000FF) * (uint (199 :: uint8_t) + 1) div 256 = 199"
proof -
  have b: "uint (Blue 0x000000FF) = 255"
    by (simp add: Blue_def)
  have "Bright 0x000000FF 199 = None"
    unfolding Bright_None_iff by (simp add: b INT_MAX_def)
  then show ?thesis
    by (simp add: b INT_MAX_def Bright_wrapped_example)
qed

subsection \<open>The hue wheel\<close>

lemma uint_narrow8: "0 \<le> k \<Longrightarrow> k < 256 \<Longrightarrow> uint (word_of_int k :: uint8_t) = k"
  by (simp add: uint_word_of_int)

text \<open>
  Every value that \<^verbatim>\<open>Wheel\<close> forms from a \<^verbatim>\<open>uint8_t\<close> \<open>p\<close> lies inside a 16-bit \<^verbatim>\<open>int\<close>:
  the differences \<open>255 - p\<close>, \<open>p - 85\<close>, \<open>p - 170\<close>, the product \<open>p * 3\<close> and
  \<open>255 - p * 3\<close>.
\<close>

lemma Wheel_int_range:
  fixes p :: uint8_t
  shows "- INT_MAX \<le> uint p - 170" "255 - uint p \<le> INT_MAX"
    "uint p * 3 \<le> INT_MAX" "- INT_MAX \<le> 255 - uint p * 3"
  using uint8_less [of p] uint_ge_0 [of p] unfolding INT_MAX_def by linarith+

text \<open>
  \<^verbatim>\<open>Wheel\<close> by the inverted position \<open>j = 255 - WheelPos\<close>, with the narrowing
  conversions of the reassignments resolved.
\<close>

lemma Wheel_bands:
  fixes p :: uint8_t
  defines "j \<equiv> 255 - uint p"
  shows "Wheel p =
     (if j < 85 then Color (word_of_int (255 - j * 3)) 0 (word_of_int (j * 3))
      else if j < 170 then Color 0 (word_of_int ((j - 85) * 3)) (word_of_int (255 - (j - 85) * 3))
      else Color (word_of_int ((j - 170) * 3)) (word_of_int (255 - (j - 170) * 3)) 0)"
proof -
  have j: "0 \<le> j" "j < 256"
    using uint8_less [of p] uint_ge_0 [of p] unfolding j_def by linarith+
  then have q: "uint (word_of_int (255 - uint p) :: uint8_t) = j"
    unfolding j_def by (rule uint_narrow8)
  have q1: "uint (word_of_int (j - 85) :: uint8_t) = j - 85" if "\<not> j < 85"
    using that j by (intro uint_narrow8) linarith+
  have q2: "uint (word_of_int (j - 170) :: uint8_t) = j - 170" if "\<not> j < 170"
    using that j by (intro uint_narrow8) linarith+
  show ?thesis
    unfolding Wheel_def Let_def q
    by (cases "j < 85"; cases "j < 170") (simp_all only: if_True if_False q1 q2 simp_thms)
qed

lemma Wheel_sum:
  "White (Wheel p) = 0"
  "uint (Red (Wheel p)) + uint (Green (Wheel p)) + uint (Blue (Wheel p)) = 255"
proof -
  define j where "j = 255 - uint p"
  have j: "0 \<le> j" "j < 256"
    using uint8_less [of p] uint_ge_0 [of p] unfolding j_def by linarith+
  have W: "Wheel p =
     (if j < 85 then Color (word_of_int (255 - j * 3)) 0 (word_of_int (j * 3))
      else if j < 170 then Color 0 (word_of_int ((j - 85) * 3)) (word_of_int (255 - (j - 85) * 3))
      else Color (word_of_int ((j - 170) * 3)) (word_of_int (255 - (j - 170) * 3)) 0)"
    unfolding j_def by (rule Wheel_bands)
  show "White (Wheel p) = 0"
    unfolding W by (simp only: channels_Color if_distrib [of White] if_cancel)
  have n: "uint (word_of_int (255 - k * 3) :: uint8_t) + uint (word_of_int (k * 3) :: uint8_t) = 255"
    if "0 \<le> k" "k \<le> 85" for k
  proof -
    have "uint (word_of_int (255 - k * 3) :: uint8_t) = 255 - k * 3"
      using that by (intro uint_narrow8) linarith+
    moreover have "uint (word_of_int (k * 3) :: uint8_t) = k * 3"
      using that by (intro uint_narrow8) linarith+
    ultimately show ?thesis by linarith
  qed
  consider "j < 85" | "85 \<le> j" "j < 170" | "170 \<le> j" by linarith
  then show "uint (Red (Wheel p)) + uint (Green (Wheel p)) + uint (Blue (Wheel p)) = 255"
  proof cases
    case 1
    then have "Wheel p = Color (word_of_int (255 - j * 3)) 0 (word_of_int (j * 3))"
      unfolding W by (simp only: if_True)
    then show ?thesis using n [of j] 1 j by (simp only: channels_Color) simp
  next
    case 2
    then have "Wheel p = Color 0 (word_of_int ((j - 85) * 3)) (word_of_int (255 - (j - 85) * 3))"
      unfolding W by simp
    then show ?thesis using n [of "j - 85"] 2 by (simp only: channels_Color) simp
  next
    case 3
    then have "Wheel p = Color (word_of_int ((j - 170) * 3)) (word_of_int (255 - (j - 170) * 3)) 0"
      unfolding W by simp
    then show ?thesis using n [of "j - 170"] 3 j by (simp only: channels_Color) simp
  qed
qed

text \<open>
  C10. At every wheel position the White channel of \<^verbatim>\<open>Wheel\<close>'s colour is 0 and its
  Red, Green and Blue channels add up to exactly 255.
\<close>

theorem Wheel_white_zero_rgb_sum:
  "White (Wheel p) = 0 \<and>
   uint (Red (Wheel p)) + uint (Green (Wheel p)) + uint (Blue (Wheel p)) = 255"
  by (simp only: Wheel_sum simp_thms)

lemma Wheel_primaries:
  "Wheel 0 = Color 255 0 0" "Wheel 85 = Color 0 255 0" "Wheel 170 = Color 0 0 255"
  by (simp_all add: Wheel_def)

text \<open>
  C6, as stated: at each of the positions 0, 85 and 170 exactly one of the Red, Green and
  Blue channels is 0. This fails already at position 0, where Green and Blue are both 0.
\<close>

theorem Wheel_boundary_one_zero_counterexample:
  "\<not> (length (filter (\<lambda>x. x = 0) [Red (Wheel 0), Green (Wheel 0), Blue (Wheel 0)]) = 1 \<and>
      length (filter (\<lambda>x. x = 0) [Red (Wheel 85), Green (Wheel 85), Blue (Wheel 85)]) = 1 \<and>
      length (filter (\<lambda>x. x = 0) [Red (Wheel 170), Green (Wheel 170), Blue (Wheel 170)]) = 1)"
  by (simp add: Wheel_primaries channels_Color)

text \<open>
  C6, amended: the positions 0, 85 and 170 give the pure primaries red, green and blue.
  One channel is 255 and the two others are 0, so exactly two channels are 0.
\<close>

theorem Wheel_boundary_primaries:
  "Red (Wheel 0) = 255 \<and> Green (Wheel 0) = 0 \<and> Blue (Wheel 0) = 0 \<and>
   Red (Wheel 85) = 0 \<and> Green (Wheel 85) = 255 \<and> Blue (Wheel 85) = 0 \<and>
   Red (Wheel 170) = 0 \<and> Green (Wheel 170) = 0 \<and> Blue (Wheel 170) = 255 \<and>
   length (filter (\<lambda>x. x = 0) [Red (Wheel 0), Green (Wheel 0), Blue (Wheel 0)]) = 2 \<and>
   length (filter (\<lambda>x. x = 0) [Red (Wheel 85), Green (Wheel 85), Blue (Wheel 85)]) = 2 \<and>
   length (filter (\<lambda>x. x = 0) [Red (Wheel 170), Green (Wheel 170), Blue (Wheel 170)]) = 2"
  by (simp add: Wheel_primaries channels_Color)

section \<open>The strand: frame lemmas\<close>

lemma stride_cases: "unat (bytesPerPixel s) = (if isRGBW s then 4 else 3)"
  by (simp add: bytesPerPixel_def)

lemma stride_pos: "0 < unat (bytesPerPixel s)"
  by (simp add: stride_cases)

named_theorems layout_simps

lemma show_layout [layout_simps]:
  "numLEDs (show s) = numLEDs s" "pixels (show s) = pixels s"
  "rOffset (show s) = rOffset s" "gOffset (show s) = gOffset s"
  "bOffset (show s) = bOffset s" "wOffset (show s) = wOffset s"
  by (simp_all add: show_def)

lemma delay_layout [layout_simps]:
  "numLEDs (delay ms s) = numLEDs s" "pixels (delay ms s) = pixels s"
  "rOffset (delay ms s) = rOffset s" "gOffset (delay ms s) = gOffset s"
  "bOffset (delay ms s) = bOffset s" "wOffset (delay ms s) = wOffset s"
  by (simp_all add: delay_def)

lemma show_and_wait_layout [layout_simps]:
  "numLEDs (show_and_wait wait s) = numLEDs s" "pixels (show_and_wait wait s) = pixels s"
  "rOffset (show_and_wait wait s) = rOffset s" "gOffset (show_and_wait wait s) = gOffset s"
  "bOffset (show_and_wait wait s) = bOffset s" "wOffset (show_and_wait wait s) = wOffset s"
  by (simp_all add: show_and_wait_def layout_simps)

lemma setPixelColor_layout [layout_simps]:
  "numLEDs (setPixelColor n c s) = numLEDs s"
  "rOffset (setPixelColor n c s) = rOffset s" "gOffset (setPixelColor n c s) = gOffset s"
  "bOffset (setPixelColor n c s) = bOffset s" "wOffset (setPixelColor n c s) = wOffset s"
  "trace (setPixelColor n c s) = trace s"
  "length (pixels (setPixelColor n c s)) = length (pixels s)"
  by (simp_all add: setPixelColor_def Let_def)

text \<open>What depends on the layout only is the same for strands of the same layout.\<close>

lemma layout_cong:
  assumes "numLEDs t = numLEDs s" "rOffset t = rOffset s" "gOffset t = gOffset s"
    "bOffset t = bOffset s" "wOffset t = wOffset s"
  shows "isRGBW t = isRGBW s" "bytesPerPixel t = bytesPerPixel s"
    "channel_offsets t = channel_offsets s" "numPixels t = numPixels s"
  using assms by (simp_all add: isRGBW_def bytesPerPixel_def channel_offsets_def numPixels_def)

lemma wf_strand_cong:
  assumes "numLEDs t = numLEDs s" "rOffset t = rOffset s" "gOffset t = gOffset s"
    "bOffset t = bOffset s" "wOffset t = wOffset s" "length (pixels t) = length (pixels s)"
  shows "wf_strand t = wf_strand s"
  using assms layout_cong [OF assms(1-5)] by (simp add: wf_strand_def)

lemma pixel_bytes_cong:
  assumes "rOffset t = rOffset s" "wOffset t = wOffset s" "pixels t = pixels s"
  shows "pixel_bytes t i = pixel_bytes s i"
  using assms by (simp add: pixel_bytes_def bytesPerPixel_def isRGBW_def)

lemma pixel_holds_cong:
  assumes "rOffset t = rOffset s" "gOffset t = gOffset s"
    "bOffset t = bOffset s" "wOffset t = wOffset s" "pixel_bytes t i = pixel_bytes s i"
  shows "pixel_holds t i c = pixel_holds s i c"
  using assms by (simp add: pixel_holds_def isRGBW_def)

lemma slice_update_outside:
  assumes "idx < lo \<or> lo + len \<le> idx"
  shows "take len (drop lo (xs[idx := v])) = take len (drop lo xs)"
proof (cases "idx < lo")
  case True
  then show ?thesis by simp
next
  case False
  with assms have "lo \<le> idx" "len \<le> idx - lo" by simp_all
  then show ?thesis by (simp add: drop_update_swap)
qed

lemma other_slot:
  fixes i k off st :: nat
  assumes "i \<noteq> k" "off < st"
  shows "k * st + off < i * st \<or> i * st + st \<le> k * st + off"
proof (cases "i < k")
  case True
  then have "Suc i * st \<le> k * st" by (intro mult_le_mono1) simp
  then show ?thesis by simp
next
  case False
  with assms have "Suc k * st \<le> i * st" by (intro mult_le_mono1) simp
  with assms show ?thesis by simp
qed


lemma wf_strand_offsets:
  assumes "wf_strand s"
  shows "unat (rOffset s) < unat (bytesPerPixel s)"
    and "unat (gOffset s) < unat (bytesPerPixel s)"
    and "unat (bOffset s) < unat (bytesPerPixel s)"
    and "isRGBW s \<Longrightarrow> unat (wOffset s) < unat (bytesPerPixel s)"
    and "unat (rOffset s) \<noteq> unat (gOffset s)"
    and "unat (rOffset s) \<noteq> unat (bOffset s)"
    and "unat (gOffset s) \<noteq> unat (bOffset s)"
    and "isRGBW s \<Longrightarrow> unat (wOffset s) \<noteq> unat (rOffset s)"
    and "isRGBW s \<Longrightarrow> unat (wOffset s) \<noteq> unat (gOffset s)"
    and "isRGBW s \<Longrightarrow> unat (wOffset s) \<noteq> unat (bOffset s)"
  using assms
  by (auto simp: wf_strand_def channel_offsets_def word_less_nat_alt word_unat_eq_iff
      split: if_splits)

lemma wf_strand_length:
  "wf_strand s \<Longrightarrow> length (pixels s) = unat (numLEDs s) * unat (bytesPerPixel s)"
  by (simp add: wf_strand_def)

lemma wf_setPixelColor: "wf_strand (setPixelColor n c s) = wf_strand s"
  by (rule wf_strand_cong) (simp_all add: layout_simps)

lemma wf_show_and_wait: "wf_strand (show_and_wait wait s) = wf_strand s"
  by (rule wf_strand_cong) (simp_all add: layout_simps)

lemma slot_in_buffer:
  assumes "wf_strand s" "i < unat (numLEDs s)"
  shows "i * unat (bytesPerPixel s) + unat (bytesPerPixel s) \<le> length (pixels s)"
proof -
  have "Suc i * unat (bytesPerPixel s) \<le> unat (numLEDs s) * unat (bytesPerPixel s)"
    using assms(2) by (intro mult_le_mono1) simp
  then show ?thesis
    by (simp add: wf_strand_length [OF assms(1)] add.commute)
qed

lemma nth_pixel_bytes:
  assumes "wf_strand s" "i < unat (numLEDs s)" "off < unat (bytesPerPixel s)"
  shows "pixel_bytes s i ! off = pixels s ! (i * unat (bytesPerPixel s) + off)"
  using slot_in_buffer [OF assms(1,2)] assms(3)
  by (simp add: pixel_bytes_def)

lemma length_pixel_bytes:
  assumes "wf_strand s" "i < unat (numLEDs s)"
  shows "length (pixel_bytes s i) = unat (bytesPerPixel s)"
  using slot_in_buffer [OF assms] by (simp add: pixel_bytes_def)

text \<open>A write to pixel \<open>n\<close> leaves the bytes of every other pixel alone.\<close>

lemma setPixelColor_other:
  assumes "wf_strand s" "i \<noteq> unat n"
  shows "pixel_bytes (setPixelColor n c s) i = pixel_bytes s i"
proof (cases "n < numLEDs s")
  case False
  then show ?thesis by (simp add: setPixelColor_def)
next
  case True
  let ?st = "unat (bytesPerPixel s)"
  have out: "unat n * ?st + off < i * ?st \<or> i * ?st + ?st \<le> unat n * ?st + off"
    if "off < ?st" for off
    using assms(2) that by (rule other_slot)
  note o = wf_strand_offsets [OF assms(1)]
  have st: "bytesPerPixel (setPixelColor n c s) = bytesPerPixel s"
    by (rule layout_cong) (simp_all add: layout_simps)
  show ?thesis
    unfolding pixel_bytes_def st
    using True out [OF o(1)] out [OF o(2)] out [OF o(3)] out [OF o(4)]
    by (simp add: setPixelColor_def Let_def slice_update_outside)
qed

text \<open>After a write to pixel \<open>n\<close> inside the strand, pixel \<open>n\<close> holds the colour.\<close>

lemma setPixelColor_holds:
  assumes "wf_strand s" "n < numLEDs s"
  shows "pixel_holds (setPixelColor n c s) (unat n) c"
proof -
  let ?t = "setPixelColor n c s"
  let ?st = "unat (bytesPerPixel s)"
  have wf: "wf_strand ?t"
    using assms(1) by (simp add: wf_setPixelColor)
  have n: "unat n < unat (numLEDs ?t)"
    using assms(2) by (simp add: layout_simps word_less_nat_alt)
  have lay: "isRGBW ?t = isRGBW s" "bytesPerPixel ?t = bytesPerPixel s"
    by (rule layout_cong; simp add: layout_simps)+
  note o = wf_strand_offsets [OF assms(1)]
  have len: "unat n * ?st + off < length (pixels s)" if "off < ?st" for off
    using slot_in_buffer [OF assms(1), of "unat n"] assms(2) that
    by (simp add: word_less_nat_alt)
  have nth: "pixel_bytes ?t (unat n) ! off = pixels ?t ! (unat n * ?st + off)" if "off < ?st" for off
    using nth_pixel_bytes [OF wf n, of off] that by (simp add: lay)
  have R: "pixel_bytes ?t (unat n) ! unat (rOffset s) = Red c"
    unfolding nth [OF o(1)]
    using assms(2) o len [OF o(1)] len [OF o(2)] len [OF o(3)]
    by (simp add: setPixelColor_def Let_def len)
  have G: "pixel_bytes ?t (unat n) ! unat (gOffset s) = Green c"
    unfolding nth [OF o(2)]
    using assms(2) o len [OF o(1)] len [OF o(2)] len [OF o(3)]
    by (simp add: setPixelColor_def Let_def len)
  have B: "pixel_bytes ?t (unat n) ! unat (bOffset s) = Blue c"
    unfolding nth [OF o(3)]
    using assms(2) o len [OF o(1)] len [OF o(2)] len [OF o(3)]
    by (simp add: setPixelColor_def Let_def len)
  have W: "pixel_bytes ?t (unat n) ! unat (wOffset s) = White c" if "isRGBW s"
    unfolding nth [OF o(4) [OF that]]
    using assms(2) that len [OF o(4) [OF that]]
    by (simp add: setPixelColor_def Let_def)
  show ?thesis
    unfolding pixel_holds_def lay layout_simps
    using R G B W by simp
qed


subsection \<open>Writing along a list of indices\<close>

lemma paint_Nil: "paint f wait [] s = s"
  by (simp add: paint_def)

lemma paint_Cons:
  "paint f wait (j # js) s = paint f wait js (show_and_wait wait (setPixelColor (of_nat j) (f j) s))"
  by (simp add: paint_def)

lemma paint_snoc:
  "paint f wait (js @ [j]) s = show_and_wait wait (setPixelColor (of_nat j) (f j) (paint f wait js s))"
  by (simp add: paint_def)

lemma paint_layout [layout_simps]:
  "numLEDs (paint f wait js s) = numLEDs s"
  "rOffset (paint f wait js s) = rOffset s" "gOffset (paint f wait js s) = gOffset s"
  "bOffset (paint f wait js s) = bOffset s" "wOffset (paint f wait js s) = wOffset s"
  "length (pixels (paint f wait js s)) = length (pixels s)"
  by (induction js arbitrary: s; simp add: paint_Nil paint_Cons layout_simps)+

lemma wf_paint: "wf_strand (paint f wait js s) = wf_strand s"
  by (rule wf_strand_cong) (simp_all add: layout_simps)

lemma unat_of_nat16:
  fixes n :: uint16_t
  assumes "j < unat n"
  shows "unat (of_nat j :: uint16_t) = j" and "(of_nat j :: uint16_t) < n"
proof -
  from assms show "unat (of_nat j :: uint16_t) = j"
    by (intro le_unat_uoi [of j n]) simp
  with assms show "(of_nat j :: uint16_t) < n"
    by (simp add: word_less_nat_alt)
qed

lemma paint_other:
  assumes "wf_strand s" "\<forall>j\<in>set js. j < unat (numLEDs s)" "i \<notin> set js"
  shows "pixel_bytes (paint f wait js s) i = pixel_bytes s i"
  using assms
proof (induction js arbitrary: s)
  case Nil
  then show ?case by (simp add: paint_Nil)
next
  case (Cons j js)
  let ?s1 = "show_and_wait wait (setPixelColor (of_nat j) (f j) s)"
  have j: "unat (of_nat j :: uint16_t) = j"
    using Cons.prems(2) unat_of_nat16(1) [of j "numLEDs s"] by simp
  have "pixel_bytes (paint f wait js ?s1) i = pixel_bytes ?s1 i"
    using Cons.prems by (intro Cons.IH) (simp_all add: wf_show_and_wait wf_setPixelColor layout_simps)
  also have "\<dots> = pixel_bytes (setPixelColor (of_nat j) (f j) s) i"
    by (rule pixel_bytes_cong) (simp_all add: layout_simps)
  also have "\<dots> = pixel_bytes s i"
    using Cons.prems j by (intro setPixelColor_other) simp_all
  finally show ?case by (simp add: paint_Cons)
qed

lemma paint_holds:
  assumes "wf_strand s" "\<forall>j\<in>set js. j < unat (numLEDs s)" "i \<in> set js"
  shows "pixel_holds (paint f wait js s) i (f i)"
  using assms
proof (induction js arbitrary: s)
  case Nil
  then show ?case by simp
next
  case (Cons j js)
  let ?s0 = "setPixelColor (of_nat j) (f j) s"
  let ?s1 = "show_and_wait wait ?s0"
  have wf1: "wf_strand ?s1"
    using Cons.prems(1) by (simp add: wf_show_and_wait wf_setPixelColor)
  have in1: "\<forall>j\<in>set js. j < unat (numLEDs ?s1)"
    using Cons.prems(2) by (simp add: layout_simps)
  show ?case
  proof (cases "i \<in> set js")
    case True
    then show ?thesis
      unfolding paint_Cons using wf1 in1 by (intro Cons.IH)
  next
    case False
    with Cons.prems(3) have ij: "i = j" by simp
    have j: "unat (of_nat j :: uint16_t) = j" "(of_nat j :: uint16_t) < numLEDs s"
      using Cons.prems(2) unat_of_nat16 [of j "numLEDs s"] by simp_all
    have "pixel_holds ?s0 (unat (of_nat j :: uint16_t)) (f j)"
      using Cons.prems(1) j(2) by (rule setPixelColor_holds)
    then have "pixel_holds ?s0 i (f i)"
      by (simp add: j ij)
    then have "pixel_holds ?s1 i (f i)"
      by (simp add: pixel_holds_cong [of ?s1 ?s0] pixel_bytes_cong [of ?s1 ?s0] layout_simps)
    moreover have "pixel_bytes (paint f wait js ?s1) i = pixel_bytes ?s1 i"
      using wf1 in1 False by (rule paint_other)
    ultimately show ?thesis
      unfolding paint_Cons
      by (simp add: pixel_holds_cong [of "paint f wait js ?s1" ?s1] layout_simps)
  qed
qed

lemma trace_paint_nowait: "trace (paint f 0 js s) = trace s"
  by (induction js arbitrary: s) (simp_all add: paint_Nil paint_Cons show_and_wait_def layout_simps)

lemma setPixelColor_pixels_cong:
  assumes "numLEDs t = numLEDs s" "rOffset t = rOffset s" "gOffset t = gOffset s"
    "bOffset t = bOffset s" "wOffset t = wOffset s" "pixels t = pixels s"
  shows "pixels (setPixelColor n c t) = pixels (setPixelColor n c s)"
  using assms by (simp add: setPixelColor_def Let_def isRGBW_def bytesPerPixel_def)

lemma pixels_paint_wait: "pixels (paint f wait js s) = pixels (paint f 0 js s)"
proof (induction js rule: rev_induct)
  case Nil
  show ?case by (simp add: paint_Nil)
next
  case (snoc j js)
  have "pixels (setPixelColor (of_nat j) (f j) (paint f wait js s))
      = pixels (setPixelColor (of_nat j) (f j) (paint f 0 js s))"
    by (rule setPixelColor_pixels_cong) (simp_all add: layout_simps snoc.IH)
  then show ?case
    by (simp add: paint_snoc layout_simps)
qed

text \<open>
  With a nonzero wait, the trace grows by one display and one wait per index, and the
  frame displayed after the write to the \<open>k\<close>-th index is the buffer with exactly the
  first \<open>k + 1\<close> writes done.
\<close>

lemma trace_paint_wait:
  assumes "wait \<noteq> 0"
  shows "trace (paint f wait js s) = trace s @
     concat (map (\<lambda>k. [Show (pixels (paint f 0 (take (Suc k) js) s)), Delay (ucast wait)])
               [0..<length js])"
proof (induction js rule: rev_induct)
  case Nil
  show ?case by (simp add: paint_Nil)
next
  case (snoc j js)
  let ?F = "\<lambda>js' k. [Show (pixels (paint f 0 (take (Suc k) js') s)), Delay (ucast wait)]"
  have front: "map (?F (js @ [j])) [0..<length js] = map (?F js) [0..<length js]"
    by (rule map_cong) simp_all
  have "trace (paint f wait (js @ [j]) s)
      = trace (paint f wait js s) @ [Show (pixels (paint f wait (js @ [j]) s)), Delay (ucast wait)]"
    using assms by (simp add: paint_snoc show_and_wait_def delay_def show_def layout_simps)
  also have "\<dots> = trace (paint f wait js s) @ ?F (js @ [j]) (length js)"
    by (simp add: pixels_paint_wait [of f wait])
  also have "\<dots> = trace s @ concat (map (?F (js @ [j])) [0..<length js]) @ ?F (js @ [j]) (length js)"
    by (simp only: snoc.IH front append_assoc)
  finally show ?case
    by simp
qed

subsection \<open>The loops of the source as writes along index lists\<close>

lemma unat_inc16:
  fixes i n :: uint16_t
  assumes "i < n"
  shows "unat (i + 1) = Suc (unat i)"
proof -
  have "unat i < unat n"
    using assms by (simp add: word_less_nat_alt)
  moreover have "unat n < 2 ^ 16"
    using unsigned_less [of n, where ?'a = nat] by simp
  ultimately have "unat i + unat (1 :: uint16_t) < 2 ^ LENGTH(16)"
    by simp
  then show ?thesis
    using unat_add_lem [of i 1] by simp
qed

lemma wipeWithColor_loop_paint:
  "wipeWithColor_loop i color wait s
     = paint (\<lambda>_. color) wait [unat i..<unat (numLEDs s)] s"
proof (induction i color wait s rule: wipeWithColor_loop.induct)
  case (1 i color wait s)
  show ?case
  proof (cases "i < numPixels s")
    case True
    let ?s1 = "show_and_wait wait (setPixelColor i color s)"
    have lt: "unat i < unat (numLEDs s)"
      using True by (simp add: numPixels_def word_less_nat_alt)
    have suc: "unat (i + 1) = Suc (unat i)"
      using True by (rule unat_inc16)
    have "wipeWithColor_loop i color wait s = wipeWithColor_loop (i + 1) color wait ?s1"
      using True by (subst wipeWithColor_loop.simps) (simp only: if_True)
    also have "\<dots> = paint (\<lambda>_. color) wait [unat (i + 1)..<unat (numLEDs ?s1)] ?s1"
      using True by (rule 1)
    also have "\<dots> = paint (\<lambda>_. color) wait [Suc (unat i)..<unat (numLEDs s)] ?s1"
      by (simp add: suc layout_simps)
    also have "\<dots> = paint (\<lambda>_. color) wait [unat i..<unat (numLEDs s)] s"
      using lt by (simp add: upt_conv_Cons paint_Cons)
    finally show ?thesis .
  next
    case False
    then have "\<not> unat i < unat (numLEDs s)"
      by (simp add: numPixels_def word_less_nat_alt)
    then have "[unat i..<unat (numLEDs s)] = []"
      by simp
    moreover have "wipeWithColor_loop i color wait s = s"
      using False by (subst wipeWithColor_loop.simps) (simp only: if_False)
    ultimately show ?thesis
      by (simp only: paint_Nil)
  qed
qed

lemma wipeWithRainbow_loop_paint:
  "wipeWithRainbow_loop i shift wait s
     = paint (\<lambda>j. Wheel (ucast (rainbow_hue shift (of_nat j) (numLEDs s) AND 0xFF))) wait
         [unat i..<unat (numLEDs s)] s"
proof (induction i shift wait s rule: wipeWithRainbow_loop.induct)
  case (1 i shift wait s)
  let ?f = "\<lambda>n j. Wheel (ucast (rainbow_hue shift (of_nat j) n AND 0xFF))"
  show ?case
  proof (cases "i < numPixels s")
    case True
    let ?s1 = "show_and_wait wait
        (setPixelColor i (Wheel (ucast (rainbow_hue shift i (numPixels s) AND 0xFF))) s)"
    have lt: "unat i < unat (numLEDs s)"
      using True by (simp add: numPixels_def word_less_nat_alt)
    have suc: "unat (i + 1) = Suc (unat i)"
      using True by (rule unat_inc16)
    have "wipeWithRainbow_loop i shift wait s = wipeWithRainbow_loop (i + 1) shift wait ?s1"
      using True by (subst wipeWithRainbow_loop.simps) (simp only: if_True)
    also have "\<dots> = paint (?f (numLEDs ?s1)) wait [unat (i + 1)..<unat (numLEDs ?s1)] ?s1"
      using True by (rule 1)
    also have "\<dots> = paint (?f (numLEDs s)) wait [Suc (unat i)..<unat (numLEDs s)] ?s1"
      by (simp add: suc layout_simps)
    also have "\<dots> = paint (?f (numLEDs s)) wait [unat i..<unat (numLEDs s)] s"
      using lt by (simp add: upt_conv_Cons paint_Cons numPixels_def)
    finally show ?thesis .
  next
    case False
    then have "\<not> unat i < unat (numLEDs s)"
      by (simp add: numPixels_def word_less_nat_alt)
    then have "[unat i..<unat (numLEDs s)] = []"
      by simp
    moreover have "wipeWithRainbow_loop i shift wait s = s"
      using False by (subst wipeWithRainbow_loop.simps) (simp only: if_False)
    ultimately show ?thesis
      by (simp only: paint_Nil)
  qed
qed

lemma show_and_wait_0: "show_and_wait 0 s = s"
  by (simp add: show_and_wait_def)

lemma scrollForward_fill_paint:
  "scrollForward_fill amount color s = paint (\<lambda>_. color) 0 (rev [0..<unat amount]) s"
proof (induction amount color s rule: scrollForward_fill.induct)
  case (1 amount color s)
  show ?case
  proof (cases "amount = 0")
    case True
    then have "scrollForward_fill amount color s = s"
      by (subst scrollForward_fill.simps) (simp only: simp_thms if_False)
    with True show ?thesis
      by (simp only: unat_0 upt_0 rev.simps paint_Nil)
  next
    case False
    let ?s1 = "setPixelColor (amount - 1) color s"
    have dec: "unat amount = Suc (unat (amount - 1))"
      using False by (simp add: unat_minus_one unat_gt_0)
    have "scrollForward_fill amount color s = scrollForward_fill (amount - 1) color ?s1"
      using False by (subst scrollForward_fill.simps) (simp only: simp_thms if_True)
    also have "\<dots> = paint (\<lambda>_. color) 0 (rev [0..<unat (amount - 1)]) ?s1"
      using False by (rule 1)
    also have "\<dots> = paint (\<lambda>_. color) 0 (rev [0..<unat amount]) s"
      by (simp add: dec paint_Cons show_and_wait_0)
    finally show ?thesis .
  qed
qed

lemma scrollBackward_fill_paint:
  assumes "amount \<le> numLEDs s"
  shows "scrollBackward_fill amount color s
     = paint (\<lambda>_. color) 0 [unat (numLEDs s) - unat amount..<unat (numLEDs s)] s"
  using assms
proof (induction amount color s rule: scrollBackward_fill.induct)
  case (1 amount color s)
  show ?case
  proof (cases "amount = 0")
    case True
    then have "scrollBackward_fill amount color s = s"
      by (subst scrollBackward_fill.simps) (simp only: simp_thms if_False)
    moreover have "[unat (numLEDs s) - unat amount..<unat (numLEDs s)] = []"
      using True by simp
    ultimately show ?thesis
      by (simp only: paint_Nil)
  next
    case False
    let ?N = "unat (numLEDs s)"
    let ?n = "word_of_int (uint (numPixels s) - uint (amount - 1) - 1) :: uint16_t"
    let ?s1 = "setPixelColor ?n color s"
    have a: "0 < unat amount" "unat amount \<le> ?N"
      using False "1.prems" by (simp_all add: unat_gt_0 word_le_nat_alt)
    have dec: "unat (amount - 1) = unat amount - 1"
      using False by (simp add: unat_minus_one)
    have u1: "uint (numPixels s) = int ?N"
      unfolding numPixels_def by (rule uint_nat)
    have u2: "uint (amount - 1) = int (unat amount - 1)"
      unfolding dec [symmetric] by (rule uint_nat)
    have "uint (numPixels s) - uint (amount - 1) - 1 = int (?N - unat amount)"
      unfolding u1 u2 using a by linarith
    then have n: "?n = of_nat (?N - unat amount)"
      by simp
    have le: "amount - 1 \<le> numLEDs ?s1"
      using a by (simp add: word_le_nat_alt dec layout_simps)
    have "scrollBackward_fill amount color s = scrollBackward_fill (amount - 1) color ?s1"
      using False by (subst scrollBackward_fill.simps) (simp only: simp_thms if_True)
    also have "\<dots> = paint (\<lambda>_. color) 0 [unat (numLEDs ?s1) - unat (amount - 1)..<unat (numLEDs ?s1)] ?s1"
      using False le by (rule 1)
    also have "\<dots> = paint (\<lambda>_. color) 0 [Suc (?N - unat amount)..<?N] ?s1"
      using a by (simp add: dec layout_simps Suc_diff_le)
    also have "\<dots> = paint (\<lambda>_. color) 0 [?N - unat amount..<?N] s"
      using a by (simp add: upt_conv_Cons paint_Cons show_and_wait_0 n numPixels_def)
    finally show ?thesis .
  qed
qed

section \<open>Scrolling by nothing\<close>

lemma scroll_amount:
  fixes amount n :: uint16_t
  shows "(word_of_int (uint amount smod uint n) :: uint16_t) = amount mod n"
proof -
  have "uint amount smod uint n = uint amount mod uint n"
    by (rule smod_nonneg) simp_all
  then show ?thesis
    by (simp add: word_mod_def)
qed

lemma scroll_noop:
  assumes "numLEDs s = 0 \<or> unat amount mod unat (numLEDs s) = 0"
  shows "scrollForward amount c s = s" and "scrollBackward amount c s = s"
proof -
  have "numPixels s = 0 \<or> amount mod numPixels s = 0"
    using assms by (auto simp: numPixels_def unat_mod_distrib simp flip: unat_eq_0)
  then show "scrollForward amount c s = s" and "scrollBackward amount c s = s"
    by (auto simp: scrollForward_def scrollBackward_def Let_def scroll_amount)
qed

text \<open>
  C9. A scroll whose amount reduces to 0 modulo the pixel count, or on a strand without
  pixels, returns the strand as it was: the same buffer and the same trace, hence no
  display call. In particular this holds for the amounts 0 and \<open>pixelCount\<close>, and
  for \<^verbatim>\<open>scrollBackward\<close> as for \<^verbatim>\<open>scrollForward\<close>.
\<close>

theorem scroll_zero_amount_is_noop:
  "(numLEDs s = 0 \<or> unat amount mod unat (numLEDs s) = 0 \<longrightarrow>
      scrollForward amount c s = s \<and> scrollBackward amount c s = s) \<and>
   scrollForward 0 c s = s \<and> scrollForward (numLEDs s) c s = s \<and>
   scrollBackward 0 c s = s \<and> scrollBackward (numLEDs s) c s = s"
proof -
  have general: "numLEDs s = 0 \<or> unat amount mod unat (numLEDs s) = 0 \<longrightarrow>
      scrollForward amount c s = s \<and> scrollBackward amount c s = s"
    by (intro impI conjI scroll_noop)
  have zero: "scrollForward 0 c s = s" "scrollBackward 0 c s = s"
    by (rule scroll_noop; simp)+
  have full: "scrollForward (numLEDs s) c s = s" "scrollBackward (numLEDs s) c s = s"
    by (rule scroll_noop; simp)+
  from general zero full show ?thesis
    by (intro conjI)
qed

theorem scroll_zero_amount_is_noop_witness:
  "unat (6 :: uint16_t) mod unat (numLEDs (strand_rgb [1, 2, 3, 4, 5, 6, 7, 8, 9])) = 0 \<and>
   scrollForward 6 7 (strand_rgb [1, 2, 3, 4, 5, 6, 7, 8, 9]) = strand_rgb [1, 2, 3, 4, 5, 6, 7, 8, 9] \<and>
   scrollBackward 6 7 (strand_rgb [1, 2, 3, 4, 5, 6, 7, 8, 9]) = strand_rgb [1, 2, 3, 4, 5, 6, 7, 8, 9]"
  using scroll_zero_amount_is_noop [of "strand_rgb [1, 2, 3, 4, 5, 6, 7, 8, 9]" 6 7]
  by (simp add: strand_rgb_def)

section \<open>The strand without pixels\<close>

lemma empty_loops:
  assumes "numLEDs s = 0"
  shows "wipeWithColor_loop 0 color wait s = s" and "wipeWithRainbow_loop 0 shift wait s = s"
  using assms by (simp_all add: wipeWithColor_loop_paint wipeWithRainbow_loop_paint paint_Nil)

lemma display_calls_simps:
  "display_calls [] = 0"
  "display_calls (tr @ tr') = display_calls tr + display_calls tr'"
  "display_calls (Show fr # tr) = Suc (display_calls tr)"
  "display_calls (Delay ms # tr) = display_calls tr"
  by (simp_all add: display_calls_def)

lemma wipe_empty:
  assumes "numLEDs s = 0"
  shows "wipeWithColor color wait s = (if wait = 0 then show s else s)"
    and "wipeWithRainbow shift wait s = (if wait = 0 then show s else s)"
  by (simp_all add: wipeWithColor_def wipeWithRainbow_def Let_def empty_loops [OF assms])

text \<open>
  C1, as stated: on a strand with no pixels every mutator triggers zero display calls,
  also with a zero delay. The strand below has no pixels and an empty trace, and
  \<^verbatim>\<open>wipeWithColor\<close> with delay 0 makes one display call on it.
\<close>

theorem zero_length_wipe_displays_counterexample:
  "numLEDs (strand_rgb []) = 0 \<and>
   display_calls (trace (wipeWithColor 0 0 (strand_rgb []))) = 1 \<and>
   display_calls (trace (strand_rgb [])) = 0"
  by (simp add: wipe_empty strand_rgb_def show_def display_calls_simps)

text \<open>
  C1, amended: on a strand with no pixels, the two scrolls return the strand as it was,
  and so do the two wipes when the delay is not 0 (no display call, no wait). With
  delay 0 the two wipes leave the buffer as it was and make exactly one display call,
  of that buffer.
\<close>

theorem zero_length_mutators:
  assumes "numLEDs s = 0"
  shows "scrollForward amount c s = s \<and> scrollBackward amount c s = s \<and>
    (wait \<noteq> 0 \<longrightarrow> wipeWithColor c wait s = s \<and> wipeWithRainbow shift wait s = s) \<and>
    pixels (wipeWithColor c 0 s) = pixels s \<and>
    trace (wipeWithColor c 0 s) = trace s @ [Show (pixels s)] \<and>
    display_calls (trace (wipeWithColor c 0 s)) = display_calls (trace s) + 1 \<and>
    pixels (wipeWithRainbow shift 0 s) = pixels s \<and>
    trace (wipeWithRainbow shift 0 s) = trace s @ [Show (pixels s)] \<and>
    display_calls (trace (wipeWithRainbow shift 0 s)) = display_calls (trace s) + 1"
  using assms
  by (simp add: scroll_noop wipe_empty show_def display_calls_simps)

theorem zero_length_mutators_witness:
  "numLEDs (strand_rgb []) = 0 \<and>
   scrollForward 2 7 (strand_rgb []) = strand_rgb [] \<and>
   wipeWithColor 7 5 (strand_rgb []) = strand_rgb [] \<and>
   trace (wipeWithColor 7 0 (strand_rgb [])) = [Show []]"
proof -
  have h: "numLEDs (strand_rgb []) = 0"
    by (simp add: strand_rgb_def)
  show ?thesis
    using h zero_length_mutators [OF h, of 2 7 5 0] by (simp add: strand_rgb_def)
qed

section \<open>Solid wipe\<close>

lemma display_calls_frames:
  "display_calls (concat (map (\<lambda>fr. [Show fr, Delay ms]) frames)) = length frames"
  by (induction frames) (simp_all add: display_calls_def)

lemma wipeWithColor_paint:
  "wipeWithColor color wait s =
     (let s' = paint (\<lambda>_. color) wait [0..<unat (numLEDs s)] s
      in if wait = 0 then show s' else s')"
  by (simp add: wipeWithColor_def wipeWithColor_loop_paint)

lemma pixel_bytes_show: "pixel_bytes (show s) i = pixel_bytes s i"
  by (rule pixel_bytes_cong) (simp_all add: layout_simps)

lemma pixel_holds_show: "pixel_holds (show s) i c = pixel_holds s i c"
  by (rule pixel_holds_cong) (simp_all add: layout_simps pixel_bytes_show)

text \<open>Every pixel of the strand holds its colour after the writes along \<open>[0..<N]\<close>.\<close>

lemma paint_all_holds:
  assumes "wf_strand s" "i < unat (numLEDs s)"
  shows "pixel_holds (paint f wait [0..<unat (numLEDs s)] s) i (f i)"
  using assms by (intro paint_holds) simp_all

text \<open>
  The frame after the first \<open>k + 1\<close> writes: pixels up to \<open>k\<close> hold their colour, the
  pixels beyond are those of the start.
\<close>

lemma paint_frame:
  fixes f :: "nat \<Rightarrow> uint32_t"
  assumes "wf_strand s" "k < unat (numLEDs s)"
  defines "fr \<equiv> pixels (paint f 0 (take (Suc k) [0..<unat (numLEDs s)]) s)"
  shows "\<forall>i\<le>k. pixel_holds (s\<lparr>pixels := fr\<rparr>) i (f i)"
    and "\<forall>i. k < i \<longrightarrow> pixel_bytes (s\<lparr>pixels := fr\<rparr>) i = pixel_bytes s i"
proof -
  let ?t = "paint f 0 [0..<Suc k] s"
  have fr: "fr = pixels ?t"
    using assms(2) by (simp add: fr_def)
  have bytes: "pixel_bytes (s\<lparr>pixels := fr\<rparr>) i = pixel_bytes ?t i" for i
    by (rule pixel_bytes_cong) (simp_all add: layout_simps fr)
  have holds: "pixel_holds (s\<lparr>pixels := fr\<rparr>) i c = pixel_holds ?t i c" for i c
    by (rule pixel_holds_cong) (simp_all add: layout_simps bytes)
  have range: "\<forall>j\<in>set [0..<Suc k]. j < unat (numLEDs s)"
    using assms(2) by simp
  show "\<forall>i\<le>k. pixel_holds (s\<lparr>pixels := fr\<rparr>) i (f i)"
    unfolding holds using assms(1) range by (auto intro!: paint_holds)
  show "\<forall>i. k < i \<longrightarrow> pixel_bytes (s\<lparr>pixels := fr\<rparr>) i = pixel_bytes s i"
    unfolding bytes using assms(1) range by (auto intro!: paint_other)
qed

lemma paint_animation:
  fixes f :: "nat \<Rightarrow> uint32_t"
  assumes "wf_strand s" "wait \<noteq> 0"
  shows "\<exists>frames. wipe_frames s f frames \<and>
      trace (paint f wait [0..<unat (numLEDs s)] s)
        = trace s @ concat (map (\<lambda>fr. [Show fr, Delay (ucast wait)]) frames)"
proof -
  let ?N = "unat (numLEDs s)"
  let ?F = "\<lambda>k. pixels (paint f 0 (take (Suc k) [0..<?N]) s)"
  let ?frames = "map ?F [0..<?N]"
  have "(\<forall>i\<le>k. pixel_holds (s\<lparr>pixels := ?frames ! k\<rparr>) i (f i)) \<and>
      (\<forall>i. k < i \<longrightarrow> pixel_bytes (s\<lparr>pixels := ?frames ! k\<rparr>) i = pixel_bytes s i)"
    if "k < ?N" for k
    using paint_frame [OF assms(1) that, of f] that by simp
  then have "wipe_frames s f ?frames"
    unfolding wipe_frames_def by simp
  moreover have "trace (paint f wait [0..<?N] s)
      = trace s @ concat (map (\<lambda>fr. [Show fr, Delay (ucast wait)]) ?frames)"
    by (simp add: trace_paint_wait [OF assms(2)] o_def)
  ultimately show ?thesis
    by (intro exI [of _ ?frames] conjI)
qed

lemma wipe_frames_length: "wipe_frames s f frames \<Longrightarrow> length frames = unat (numLEDs s)"
  by (simp add: wipe_frames_def)

lemma wipeWithColor_all_hold:
  assumes "wf_strand s" "i < unat (numLEDs s)"
  shows "pixel_holds (wipeWithColor color wait s) i color"
  using paint_all_holds [OF assms, of "\<lambda>_. color" wait]
  by (cases "wait = 0") (simp_all add: wipeWithColor_paint Let_def pixel_holds_show)

lemma wipeWithColor_instant:
  "trace (wipeWithColor color 0 s) = trace s @ [Show (pixels (wipeWithColor color 0 s))]"
  by (simp add: wipeWithColor_paint Let_def show_def trace_paint_nowait)

lemma wipeWithColor_animated:
  assumes "wf_strand s" "wait \<noteq> 0"
  shows "\<exists>frames. wipe_frames s (\<lambda>_. color) frames \<and>
      trace (wipeWithColor color wait s)
        = trace s @ concat (map (\<lambda>fr. [Show fr, Delay (ucast wait)]) frames)"
proof -
  have "wipeWithColor color wait s = paint (\<lambda>_. color) wait [0..<unat (numLEDs s)] s"
    using assms(2) by (simp add: wipeWithColor_paint)
  then show ?thesis
    using paint_animation [OF assms, of "\<lambda>_. color"] by (simp only:)
qed

lemma display_calls_animation:
  assumes "wipe_frames s f frames"
    and "tr' = tr @ concat (map (\<lambda>fr. [Show fr, Delay ms]) frames)"
  shows "display_calls tr' = display_calls tr + unat (numLEDs s)"
  unfolding assms(2)
  by (simp only: display_calls_simps(2) display_calls_frames wipe_frames_length [OF assms(1)])

text \<open>
  C2. On a strand that satisfies the data-model invariant, \<^verbatim>\<open>wipeWithColor\<close> leaves
  every pixel of the strand holding the colour, whatever the delay. With delay 0 it
  adds exactly one event to the trace, a display call, and the frame displayed is the
  final buffer, so the display comes after all writes. With a delay \<open>d > 0\<close> it adds
  one display call and one wait of \<open>d\<close> per pixel, alternating; the \<open>k\<close>-th frame
  displayed has the pixels up to \<open>k\<close> written and the pixels beyond untouched, so each
  display-and-wait follows one single pixel write. The number of display calls is 1 in
  the first case and the pixel count in the second. (The theorem does not need the
  pixel count to be positive.)
\<close>

theorem wipeWithColor_writes_and_displays:
  assumes "wf_strand s"
  shows "(\<forall>i<unat (numLEDs s). pixel_holds (wipeWithColor color wait s) i color) \<and>
    trace (wipeWithColor color 0 s) = trace s @ [Show (pixels (wipeWithColor color 0 s))] \<and>
    display_calls (trace (wipeWithColor color 0 s)) = display_calls (trace s) + 1 \<and>
    (wait \<noteq> 0 \<longrightarrow>
      (\<exists>frames. wipe_frames s (\<lambda>_. color) frames \<and>
         trace (wipeWithColor color wait s)
           = trace s @ concat (map (\<lambda>fr. [Show fr, Delay (ucast wait)]) frames)) \<and>
      display_calls (trace (wipeWithColor color wait s))
        = display_calls (trace s) + unat (numLEDs s))"
proof (intro conjI impI allI)
  fix i
  assume "i < unat (numLEDs s)"
  with assms show "pixel_holds (wipeWithColor color wait s) i color"
    by (rule wipeWithColor_all_hold)
next
  show "trace (wipeWithColor color 0 s) = trace s @ [Show (pixels (wipeWithColor color 0 s))]"
    by (rule wipeWithColor_instant)
next
  show "display_calls (trace (wipeWithColor color 0 s)) = display_calls (trace s) + 1"
    by (subst wipeWithColor_instant) (simp add: display_calls_simps)
next
  assume "wait \<noteq> 0"
  with assms show "\<exists>frames. wipe_frames s (\<lambda>_. color) frames \<and>
      trace (wipeWithColor color wait s)
        = trace s @ concat (map (\<lambda>fr. [Show fr, Delay (ucast wait)]) frames)"
    by (rule wipeWithColor_animated)
next
  assume "wait \<noteq> 0"
  with assms obtain frames where "wipe_frames s (\<lambda>_. color) frames"
    "trace (wipeWithColor color wait s)
        = trace s @ concat (map (\<lambda>fr. [Show fr, Delay (ucast wait)]) frames)"
    using wipeWithColor_animated [of s wait color] by auto
  then show "display_calls (trace (wipeWithColor color wait s))
        = display_calls (trace s) + unat (numLEDs s)"
    by (rule display_calls_animation)
qed

lemma wipeWithColor_example:
  "wipeWithColor 0x112233 5 (strand_rgb [1, 2, 3, 4, 5, 6]) =
    (strand_rgb [0x22, 0x11, 0x33, 0x22, 0x11, 0x33])
      \<lparr>trace := [Show [0x22, 0x11, 0x33, 4, 5, 6], Delay 5,
                 Show [0x22, 0x11, 0x33, 0x22, 0x11, 0x33], Delay 5]\<rparr>"
  by code_simp

theorem wipeWithColor_writes_and_displays_witness:
  "wf_strand (strand_rgb [1, 2, 3, 4, 5, 6]) \<and>
   pixel_holds (wipeWithColor 0x112233 5 (strand_rgb [1, 2, 3, 4, 5, 6])) 0 0x112233 \<and>
   pixel_holds (wipeWithColor 0x112233 5 (strand_rgb [1, 2, 3, 4, 5, 6])) 1 0x112233 \<and>
   display_calls (trace (wipeWithColor 0x112233 0 (strand_rgb [1, 2, 3, 4, 5, 6]))) = 1 \<and>
   display_calls (trace (wipeWithColor 0x112233 5 (strand_rgb [1, 2, 3, 4, 5, 6]))) = 2"
proof -
  have wf: "wf_strand (strand_rgb [1, 2, 3, 4, 5, 6])"
    by (simp add: wf_strand_def strand_rgb_def channel_offsets_def bytesPerPixel_def isRGBW_def)
  have n: "unat (numLEDs (strand_rgb [1, 2, 3, 4, 5, 6])) = 2"
      "trace (strand_rgb [1, 2, 3, 4, 5, 6]) = []" "(5 :: uint16_t) \<noteq> 0"
    by (simp_all add: strand_rgb_def)
  show ?thesis
    using wf wipeWithColor_writes_and_displays [OF wf, where color = "0x112233" and wait = 5]
    by (simp add: n display_calls_simps)
qed

section \<open>Rainbow wipe\<close>

text \<open>
  The hue of pixel \<open>i\<close> as a number: the product \<open>i * 256\<close> is reduced modulo \<open>2^16\<close>
  before it is divided.
\<close>

lemma rainbow_hue_of_nat:
  fixes n :: uint16_t
  assumes "i < unat n"
  shows "rainbow_hue shift (of_nat i) n = of_nat (unat shift + (i * 256 mod 65536) div unat n)"
proof -
  have i: "unat (of_nat i :: uint16_t) = i"
    using assms by (rule unat_of_nat16)
  have "unat ((of_nat i :: uint16_t) * 256) = i * 256 mod 65536"
    by (simp add: unat_word_ariths(2) i)
  then have "unat (((of_nat i :: uint16_t) * 256) div n) = (i * 256 mod 65536) div unat n"
    by (simp only: unat_div_distrib)
  then have "((of_nat i :: uint16_t) * 256) div n = of_nat ((i * 256 mod 65536) div unat n)"
    by (metis of_nat_unat ucast_id)
  moreover have "(ucast shift :: uint16_t) = of_nat (unat shift)"
    by simp
  ultimately show ?thesis
    unfolding rainbow_hue_def by (simp only: of_nat_add)
qed

lemma low_byte_of_nat:
  "(ucast ((of_nat x :: uint16_t) AND 0xFF) :: uint8_t) = of_nat (x mod 256)"
proof -
  have m: "(0xFF :: uint16_t) = mask 8"
    by (simp add: mask_eq_exp_minus_1)
  have "(ucast ((of_nat x :: uint16_t) AND 0xFF) :: uint8_t) = ucast (of_nat x :: uint16_t)"
    unfolding m by (rule bit_word_eqI) (auto simp: bit_simps)
  also have "\<dots> = (of_nat x :: uint8_t)"
    by (rule bit_word_eqI) (auto simp: bit_simps)
  also have "\<dots> = of_nat (x mod 256)"
    by (simp add: word_of_nat_eq_iff take_bit_eq_mod)
  finally show ?thesis .
qed

lemma wipeWithRainbow_paint:
  "wipeWithRainbow shift wait s =
     (let s' = paint (\<lambda>j. Wheel (ucast (rainbow_hue shift (of_nat j) (numLEDs s) AND 0xFF))) wait
                 [0..<unat (numLEDs s)] s
      in if wait = 0 then show s' else s')"
  by (simp add: wipeWithRainbow_def wipeWithRainbow_loop_paint)

text \<open>What \<^verbatim>\<open>wipeWithRainbow\<close> leaves in every pixel of the strand.\<close>

lemma wipeWithRainbow_holds:
  assumes "wf_strand s" "i < unat (numLEDs s)"
  shows "pixel_holds (wipeWithRainbow shift wait s) i
           (Wheel (of_nat ((unat shift + (i * 256 mod 65536) div unat (numLEDs s)) mod 256)))"
proof -
  let ?f = "\<lambda>j. Wheel (ucast (rainbow_hue shift (of_nat j) (numLEDs s) AND 0xFF))"
  have "pixel_holds (paint ?f wait [0..<unat (numLEDs s)] s) i (?f i)"
    using assms by (rule paint_all_holds)
  moreover have "?f i
      = Wheel (of_nat ((unat shift + (i * 256 mod 65536) div unat (numLEDs s)) mod 256))"
    by (simp only: rainbow_hue_of_nat [OF assms(2)] low_byte_of_nat)
  ultimately show ?thesis
    by (cases "wait = 0") (simp_all add: wipeWithRainbow_paint Let_def pixel_holds_show)
qed

text \<open>
  Up to pixel 255 the product does not wrap, and the pixel holds the hue
  \<open>(shift + i * 256 div N) mod 256\<close>; so it is on every strand of at most 256 pixels.
\<close>

lemma wipeWithRainbow_holds_below_256:
  assumes "wf_strand s" "i < unat (numLEDs s)" "i < 256"
  shows "pixel_holds (wipeWithRainbow shift wait s) i
           (Wheel (of_nat ((unat shift + i * 256 div unat (numLEDs s)) mod 256)))"
proof -
  have "i * 256 mod 65536 = i * 256"
    using assms(3) by simp
  with wipeWithRainbow_holds [OF assms(1,2), where shift = shift and wait = wait] show ?thesis
    by simp
qed

lemma wipeWithRainbow_example:
  "wipeWithRainbow 0 0 (strand_rgb [1, 2, 3, 4, 5, 6, 7, 8, 9]) =
    (strand_rgb [0, 255, 0, 255, 0, 0, 0, 0, 255])
      \<lparr>trace := [Show [0, 255, 0, 255, 0, 0, 0, 0, 255]]\<rparr>"
  by code_simp

text \<open>A pixel holds at most one Red value.\<close>

lemma pixel_holds_Red:
  assumes "pixel_holds s i c" "pixel_holds s i c'"
  shows "Red c = Red c'"
  using assms by (simp add: pixel_holds_def)

text \<open>
  C5, on a strand of 300 pixels with shift 0, at pixel 256. The claim gives the hue
  \<open>256 * 256 div 300 = 218\<close>. In the code the product \<open>256 * 256 = 65536\<close> wraps to 0 in
  16-bit unsigned arithmetic, the hue is 0, and the pixel holds \<open>Wheel 0\<close>, pure red,
  instead of \<open>Wheel 218\<close>, whose Red channel is 144.
\<close>

theorem wipeWithRainbow_wraps_at_256:
  "wf_strand (strand_rgb (replicate 900 0)) \<and>
   unat (numLEDs (strand_rgb (replicate 900 0))) = 300 \<and>
   (0 + 256 * 256 div 300) mod 256 = (218 :: nat) \<and>
   rainbow_hue 0 256 300 = 0 \<and>
   pixel_holds (wipeWithRainbow 0 0 (strand_rgb (replicate 900 0))) 256 (Wheel 0) \<and>
   \<not> pixel_holds (wipeWithRainbow 0 0 (strand_rgb (replicate 900 0))) 256 (Wheel 218)"
proof -
  let ?S = "strand_rgb (replicate 900 0)"
  have n: "unat (numLEDs ?S) = 300"
    by (simp add: strand_rgb_def)
  have wf: "wf_strand ?S"
    by (simp add: wf_strand_def strand_rgb_def channel_offsets_def bytesPerPixel_def isRGBW_def)
  have i: "256 < unat (numLEDs ?S)"
    by (simp add: n)
  have hue: "rainbow_hue 0 256 300 = 0"
    by (simp add: rainbow_hue_def)
  have "pixel_holds (wipeWithRainbow 0 0 ?S) 256
      (Wheel (of_nat ((unat (0 :: uint8_t) + (256 * 256 mod 65536) div unat (numLEDs ?S)) mod 256)))"
    using wf i by (rule wipeWithRainbow_holds)
  then have red: "pixel_holds (wipeWithRainbow 0 0 ?S) 256 (Wheel 0)"
    by (simp add: n)
  have "Red (Wheel 0) \<noteq> Red (Wheel 218)"
    by (simp add: Wheel_def channels_Color)
  with red have "\<not> pixel_holds (wipeWithRainbow 0 0 ?S) 256 (Wheel 218)"
    using pixel_holds_Red by blast
  with wf n hue red show ?thesis
    by simp
qed

section \<open>Scrolling\<close>

lemma uint_stride:
  "uint (ucast (bytesPerPixel s) :: uint16_t) = int (unat (bytesPerPixel s))"
  by (simp add: bytesPerPixel_def)

text \<open>
  The two arguments of the block move on the target. \<^verbatim>\<open>stride * amount\<close> and
  \<^verbatim>\<open>(numPixels() - amount) * stride\<close> are products of \<^verbatim>\<open>unsigned int\<close>, formed modulo
  \<open>2^16\<close>. A buffer of the target is shorter than \<open>2^16\<close> bytes, and then neither product
  wraps: each is the exact number that the definitions of the scrolls use.
\<close>

lemma scroll_offsets_16_bit:
  fixes a :: uint16_t
  assumes "wf_strand s" "length (pixels s) < 65536" "a \<le> numLEDs s"
  defines "stride \<equiv> (ucast (bytesPerPixel s) :: uint16_t)"
  shows "uint (stride * a) = uint stride * uint a"
    and "uint ((numLEDs s - a) * stride) = (uint (numLEDs s) - uint a) * uint stride"
proof -
  have st: "unat stride = unat (bytesPerPixel s)"
    by (simp add: stride_def bytesPerPixel_def)
  have len: "unat (numLEDs s) * unat stride < 65536"
    using assms(1,2) by (simp add: wf_strand_length st)
  have a: "unat a \<le> unat (numLEDs s)"
    using assms(3) by (simp add: word_le_nat_alt)
  have d: "unat (numLEDs s - a) = unat (numLEDs s) - unat a"
    using assms(3) by (rule unat_sub)
  have "unat a * unat stride \<le> unat (numLEDs s) * unat stride"
    using a by (rule mult_le_mono1)
  with len have "unat a * unat stride < 65536"
    by (rule le_less_trans [rotated])
  then have "unat stride * unat a < 2 ^ LENGTH(16)"
    by (simp add: mult.commute)
  then have m1: "unat (stride * a) = unat stride * unat a"
    by (simp only: unat_mult_lem)
  have "unat (numLEDs s - a) * unat stride \<le> unat (numLEDs s) * unat stride"
    unfolding d by (rule mult_le_mono1) simp
  with len have "unat (numLEDs s - a) * unat stride < 65536"
    by (rule le_less_trans [rotated])
  then have "unat (numLEDs s - a) * unat stride < 2 ^ LENGTH(16)"
    by simp
  then have m2: "unat ((numLEDs s - a) * stride) = unat (numLEDs s - a) * unat stride"
    by (simp only: unat_mult_lem)
  show "uint (stride * a) = uint stride * uint a"
    unfolding uint_nat m1 by (simp only: of_nat_mult)
  show "uint ((numLEDs s - a) * stride) = (uint (numLEDs s) - uint a) * uint stride"
    unfolding uint_nat m2 d using a by (simp only: of_nat_mult of_nat_diff)
qed

lemma scroll_reduced:
  fixes amount n :: uint16_t
  assumes "n \<noteq> 0"
  shows "unat (amount mod n) = unat amount mod unat n"
    and "unat amount mod unat n < unat n"
    and "uint (amount mod n) = int (unat amount mod unat n)"
proof -
  show u: "unat (amount mod n) = unat amount mod unat n"
    by (rule unat_mod_distrib)
  show "unat amount mod unat n < unat n"
    using assms by (simp add: unat_gt_0)
  show "uint (amount mod n) = int (unat amount mod unat n)"
    by (simp only: uint_nat u)
qed

lemma scroll_move_args:
  fixes amount :: uint16_t
  assumes "numLEDs s \<noteq> 0"
  defines "a \<equiv> unat amount mod unat (numLEDs s)"
  defines "st \<equiv> unat (bytesPerPixel s)"
  shows "nat (uint (ucast (bytesPerPixel s) :: uint16_t) * uint (amount mod numLEDs s)) = st * a"
    and "nat ((uint (numLEDs s) - uint (amount mod numLEDs s))
               * uint (ucast (bytesPerPixel s) :: uint16_t)) = (unat (numLEDs s) - a) * st"
proof -
  note r = scroll_reduced [OF assms(1), of amount]
  show "nat (uint (ucast (bytesPerPixel s) :: uint16_t) * uint (amount mod numLEDs s)) = st * a"
    unfolding uint_stride r(3) a_def st_def
    by (simp only: of_nat_mult [symmetric] nat_int)
  have "uint (numLEDs s) - int a = int (unat (numLEDs s) - a)"
    using r(2) unfolding a_def uint_nat [of "numLEDs s"] by linarith
  then show "nat ((uint (numLEDs s) - uint (amount mod numLEDs s))
               * uint (ucast (bytesPerPixel s) :: uint16_t)) = (unat (numLEDs s) - a) * st"
    unfolding uint_stride r(3) a_def st_def
    by (simp only: of_nat_mult [symmetric] nat_int)
qed

lemma scrollForward_unfold:
  fixes amount :: uint16_t
  assumes "numLEDs s \<noteq> 0" "unat amount mod unat (numLEDs s) \<noteq> 0"
  defines "a \<equiv> unat amount mod unat (numLEDs s)"
  defines "st \<equiv> unat (bytesPerPixel s)"
  shows "scrollForward amount c s =
     scrollForward_fill (of_nat a) c
       (s\<lparr>pixels := memmove (st * a) 0 ((unat (numLEDs s) - a) * st) (pixels s)\<rparr>)"
proof -
  note r = scroll_reduced [OF assms(1), of amount]
  have nz: "amount mod numLEDs s \<noteq> 0"
    using assms(2) r(1) by (metis unat_0)
  have w: "amount mod numLEDs s = of_nat a"
    unfolding a_def r(1) [symmetric] by simp
  note m = scroll_move_args [OF assms(1), of amount, folded a_def st_def]
  show ?thesis
    unfolding scrollForward_def Let_def scroll_amount numPixels_def m
    using nz by (simp only: assms(1) if_False w)
qed

lemma scrollBackward_unfold:
  fixes amount :: uint16_t
  assumes "numLEDs s \<noteq> 0" "unat amount mod unat (numLEDs s) \<noteq> 0"
  defines "a \<equiv> unat amount mod unat (numLEDs s)"
  defines "st \<equiv> unat (bytesPerPixel s)"
  shows "scrollBackward amount c s =
     scrollBackward_fill (of_nat a) c
       (s\<lparr>pixels := memmove 0 (st * a) ((unat (numLEDs s) - a) * st) (pixels s)\<rparr>)"
proof -
  note r = scroll_reduced [OF assms(1), of amount]
  have nz: "amount mod numLEDs s \<noteq> 0"
    using assms(2) r(1) by (metis unat_0)
  have w: "amount mod numLEDs s = of_nat a"
    unfolding a_def r(1) [symmetric] by simp
  note m = scroll_move_args [OF assms(1), of amount, folded a_def st_def]
  show ?thesis
    unfolding scrollBackward_def Let_def scroll_amount numPixels_def m
    using nz by (simp only: assms(1) if_False w)
qed


subsection \<open>The block move\<close>

lemma length_memmove:
  assumes "dst + n \<le> length xs" "src + n \<le> length xs"
  shows "length (memmove dst src n xs) = length xs"
  using assms by (simp add: memmove_def)

lemma slice_memmove_up:
  assumes "d + n = length xs" "d \<le> lo" "lo + len \<le> length xs"
  shows "take len (drop lo (memmove d 0 n xs)) = take len (drop (lo - d) xs)"
proof -
  have "memmove d 0 n xs = take d xs @ take n xs"
    using assms(1) by (simp add: memmove_def)
  moreover have "length (take d xs) = d"
    using assms(1) by simp
  ultimately have "drop lo (memmove d 0 n xs) = drop (lo - d) (take n xs)"
    using assms(2) by simp
  also have "\<dots> = take (n - (lo - d)) (drop (lo - d) xs)"
    by (rule drop_take)
  finally have "drop lo (memmove d 0 n xs) = take (n - (lo - d)) (drop (lo - d) xs)" .
  moreover have "len \<le> n - (lo - d)"
    using assms by linarith
  ultimately show ?thesis
    by (simp add: min_absorb1)
qed

lemma slice_memmove_down:
  assumes "src + n = length xs" "lo + len \<le> n"
  shows "take len (drop lo (memmove 0 src n xs)) = take len (drop (lo + src) xs)"
proof -
  have "memmove 0 src n xs = take n (drop src xs) @ drop n xs"
    by (simp add: memmove_def)
  moreover have "length (take n (drop src xs)) = n"
    using assms(1) by simp
  ultimately have "take len (drop lo (memmove 0 src n xs))
      = take len (drop lo (take n (drop src xs)))"
    using assms(2) by simp
  also have "\<dots> = take len (take (n - lo) (drop (lo + src) xs))"
    by (simp add: drop_take)
  finally show ?thesis
    using assms(2) by (simp add: min_def)
qed

text \<open>Both ranges of each block move lie inside the buffer.\<close>

lemma scroll_move_in_buffer:
  assumes "wf_strand s" "a \<le> unat (numLEDs s)"
  defines "st \<equiv> unat (bytesPerPixel s)"
  shows "st * a + (unat (numLEDs s) - a) * st = length (pixels s)"
    and "0 + (unat (numLEDs s) - a) * st \<le> length (pixels s)"
proof -
  have "length (pixels s) = unat (numLEDs s) * st"
    using assms(1) by (simp add: wf_strand_length st_def)
  moreover have "st * a + (unat (numLEDs s) - a) * st = (a + (unat (numLEDs s) - a)) * st"
    by (simp only: add_mult_distrib mult.commute [of st a])
  moreover have "a + (unat (numLEDs s) - a) = unat (numLEDs s)"
    using assms(2) by simp
  ultimately show "st * a + (unat (numLEDs s) - a) * st = length (pixels s)"
    and "0 + (unat (numLEDs s) - a) * st \<le> length (pixels s)"
    by simp_all
qed

lemma moved_layout:
  "numLEDs (s\<lparr>pixels := px\<rparr>) = numLEDs s" "rOffset (s\<lparr>pixels := px\<rparr>) = rOffset s"
  "gOffset (s\<lparr>pixels := px\<rparr>) = gOffset s" "bOffset (s\<lparr>pixels := px\<rparr>) = bOffset s"
  "wOffset (s\<lparr>pixels := px\<rparr>) = wOffset s" "trace (s\<lparr>pixels := px\<rparr>) = trace s"
  "bytesPerPixel (s\<lparr>pixels := px\<rparr>) = bytesPerPixel s"
  by (simp_all add: bytesPerPixel_def isRGBW_def)

lemma wf_moved:
  assumes "wf_strand s" "length px = length (pixels s)"
  shows "wf_strand (s\<lparr>pixels := px\<rparr>)"
  using assms(1) wf_strand_cong [of "s\<lparr>pixels := px\<rparr>" s] assms(2) by simp

text \<open>After the move up by \<open>a\<close> pixels, pixel \<open>i\<close> has the bytes that pixel \<open>i - a\<close> had.\<close>

lemma pixel_bytes_moved_up:
  assumes "wf_strand s" "a \<le> i" "i < unat (numLEDs s)"
  defines "st \<equiv> unat (bytesPerPixel s)"
  shows "pixel_bytes (s\<lparr>pixels := memmove (st * a) 0 ((unat (numLEDs s) - a) * st) (pixels s)\<rparr>) i
           = pixel_bytes s (i - a)"
proof -
  have a: "a \<le> unat (numLEDs s)"
    using assms(2,3) by simp
  have "a * st \<le> i * st"
    using assms(2) by (rule mult_le_mono1)
  then have lo: "st * a \<le> i * st"
    by (simp only: mult.commute [of st a])
  have hi: "i * st + st \<le> length (pixels s)"
    using slot_in_buffer [OF assms(1,3)] by (simp add: st_def)
  have "take st (drop (i * st) (memmove (st * a) 0 ((unat (numLEDs s) - a) * st) (pixels s)))
      = take st (drop (i * st - st * a) (pixels s))"
    using scroll_move_in_buffer(1) [OF assms(1) a, folded st_def] lo hi
    by (rule slice_memmove_up)
  moreover have "i * st - st * a = (i - a) * st"
    by (simp only: diff_mult_distrib mult.commute [of st a])
  ultimately show ?thesis
    by (simp add: pixel_bytes_def moved_layout st_def)
qed

text \<open>After the move down by \<open>a\<close> pixels, pixel \<open>i\<close> has the bytes that pixel \<open>i + a\<close> had.\<close>

lemma pixel_bytes_moved_down:
  assumes "wf_strand s" "i + a < unat (numLEDs s)"
  defines "st \<equiv> unat (bytesPerPixel s)"
  shows "pixel_bytes (s\<lparr>pixels := memmove 0 (st * a) ((unat (numLEDs s) - a) * st) (pixels s)\<rparr>) i
           = pixel_bytes s (i + a)"
proof -
  have a: "a \<le> unat (numLEDs s)"
    using assms(2) by simp
  have "Suc i * st \<le> (unat (numLEDs s) - a) * st"
    using assms(2) by (intro mult_le_mono1) simp
  then have hi: "i * st + st \<le> (unat (numLEDs s) - a) * st"
    by (simp add: add.commute)
  have "take st (drop (i * st) (memmove 0 (st * a) ((unat (numLEDs s) - a) * st) (pixels s)))
      = take st (drop (i * st + st * a) (pixels s))"
    using scroll_move_in_buffer(1) [OF assms(1) a, folded st_def] hi
    by (rule slice_memmove_down)
  moreover have "i * st + st * a = (i + a) * st"
    by (simp only: add_mult_distrib mult.commute [of st a])
  ultimately show ?thesis
    by (simp add: pixel_bytes_def moved_layout st_def)
qed


subsection \<open>Forward scroll\<close>

lemma setPixelColor_above:
  assumes "wf_strand s" "unat n < a"
  shows "drop (a * unat (bytesPerPixel s)) (pixels (setPixelColor n c s))
           = drop (a * unat (bytesPerPixel s)) (pixels s)"
proof -
  let ?st = "unat (bytesPerPixel s)"
  have "Suc (unat n) * ?st \<le> a * ?st"
    using assms(2) by (intro mult_le_mono1) simp
  then have below: "unat n * ?st + off < a * ?st" if "off < ?st" for off
    using that by simp
  note o = wf_strand_offsets [OF assms(1)]
  show ?thesis
    using below [OF o(1)] below [OF o(2)] below [OF o(3)] below [OF o(4)]
    by (simp add: setPixelColor_def Let_def)
qed

lemma paint_above:
  assumes "wf_strand s" "\<forall>j\<in>set js. j < a \<and> j < unat (numLEDs s)"
  shows "drop (a * unat (bytesPerPixel s)) (pixels (paint f wait js s))
           = drop (a * unat (bytesPerPixel s)) (pixels s)"
  using assms
proof (induction js arbitrary: s)
  case Nil
  show ?case by (simp add: paint_Nil)
next
  case (Cons j js)
  let ?s0 = "setPixelColor (of_nat j) (f j) s"
  let ?s1 = "show_and_wait wait ?s0"
  have j: "unat (of_nat j :: uint16_t) = j"
    using Cons.prems(2) unat_of_nat16(1) [of j "numLEDs s"] by simp
  have st: "bytesPerPixel ?s1 = bytesPerPixel s"
    by (rule layout_cong) (simp_all add: layout_simps)
  have "drop (a * unat (bytesPerPixel ?s1)) (pixels (paint f wait js ?s1))
      = drop (a * unat (bytesPerPixel ?s1)) (pixels ?s1)"
    using Cons.prems by (intro Cons.IH) (simp_all add: wf_show_and_wait wf_setPixelColor layout_simps)
  also have "\<dots> = drop (a * unat (bytesPerPixel s)) (pixels ?s0)"
    by (simp add: st layout_simps)
  also have "\<dots> = drop (a * unat (bytesPerPixel s)) (pixels s)"
    using Cons.prems j by (intro setPixelColor_above) simp_all
  finally show ?case
    by (simp add: paint_Cons st)
qed

lemma scrollForward_paint:
  fixes amount :: uint16_t
  assumes "numLEDs s \<noteq> 0" "unat amount mod unat (numLEDs s) \<noteq> 0"
  defines "a \<equiv> unat amount mod unat (numLEDs s)"
  defines "st \<equiv> unat (bytesPerPixel s)"
  shows "scrollForward amount c s =
     paint (\<lambda>_. c) 0 (rev [0..<a])
       (s\<lparr>pixels := memmove (st * a) 0 ((unat (numLEDs s) - a) * st) (pixels s)\<rparr>)"
proof -
  have "a < unat (numLEDs s)"
    unfolding a_def using assms(1) by (rule scroll_reduced(2))
  then have "unat (of_nat a :: uint16_t) = a"
    by (rule unat_of_nat16)
  then show ?thesis
    unfolding scrollForward_unfold [OF assms(1,2), folded a_def st_def] scrollForward_fill_paint
    by simp
qed

lemma scrollForward_facts:
  fixes amount :: uint16_t and c :: uint32_t
  assumes "wf_strand s" "numLEDs s \<noteq> 0" "unat amount mod unat (numLEDs s) \<noteq> 0"
  defines "N \<equiv> unat (numLEDs s)"
  defines "a \<equiv> unat amount mod unat (numLEDs s)"
  defines "st \<equiv> unat (bytesPerPixel s)"
  defines "s' \<equiv> scrollForward amount c s"
  shows "\<And>i. a \<le> i \<Longrightarrow> i < N \<Longrightarrow> pixel_bytes s' i = pixel_bytes s (i - a)"
    and "\<And>i. i < a \<Longrightarrow> pixel_holds s' i c"
    and "drop (a * st) (pixels s') = take ((N - a) * st) (pixels s)"
    and "trace s' = trace s"
    and "wf_strand s'"
    and "numLEDs s' = numLEDs s" "rOffset s' = rOffset s" "gOffset s' = gOffset s"
      "bOffset s' = bOffset s" "wOffset s' = wOffset s"
proof -
  let ?moved = "memmove (st * a) 0 ((N - a) * st) (pixels s)"
  let ?t = "s\<lparr>pixels := ?moved\<rparr>"
  have a: "a < N"
    unfolding a_def N_def using assms(2) by (rule scroll_reduced(2))
  then have aN: "a \<le> unat (numLEDs s)"
    by (simp add: N_def)
  note inb = scroll_move_in_buffer [OF assms(1) aN, folded st_def N_def]
  have len: "length ?moved = length (pixels s)"
    using inb by (intro length_memmove) simp_all
  have wf: "wf_strand ?t"
    using assms(1) len by (rule wf_moved)
  have s': "s' = paint (\<lambda>_. c) 0 (rev [0..<a]) ?t"
    unfolding s'_def N_def a_def st_def by (rule scrollForward_paint [OF assms(2,3)])
  have range: "\<forall>j\<in>set (rev [0..<a]). j < unat (numLEDs ?t)"
    using a by (simp add: N_def)
  show "pixel_bytes s' i = pixel_bytes s (i - a)" if "a \<le> i" "i < N" for i
  proof -
    have "pixel_bytes s' i = pixel_bytes ?t i"
      unfolding s' using wf range that(1) by (intro paint_other) simp_all
    also have "\<dots> = pixel_bytes s (i - a)"
      unfolding st_def N_def using assms(1) that by (intro pixel_bytes_moved_up) (simp_all add: N_def)
    finally show ?thesis .
  qed
  show "pixel_holds s' i c" if "i < a" for i
    unfolding s' using wf range that by (intro paint_holds) simp_all
  have "drop (a * st) (pixels s') = drop (a * unat (bytesPerPixel ?t)) (pixels s')"
    by (simp add: moved_layout st_def)
  also have "\<dots> = drop (a * unat (bytesPerPixel ?t)) (pixels ?t)"
    unfolding s' using wf a by (intro paint_above) (simp_all add: N_def)
  also have "\<dots> = drop (st * a) ?moved"
    by (simp add: moved_layout st_def mult.commute)
  also have "\<dots> = take ((N - a) * st) (pixels s)"
    using inb by (simp add: memmove_def)
  finally show "drop (a * st) (pixels s') = take ((N - a) * st) (pixels s)" .
  show "trace s' = trace s"
    unfolding s' by (simp add: trace_paint_nowait)
  show "wf_strand s'"
    unfolding s' using wf by (simp add: wf_paint)
  show "numLEDs s' = numLEDs s" "rOffset s' = rOffset s" "gOffset s' = gOffset s"
      "bOffset s' = bOffset s" "wOffset s' = wOffset s"
    unfolding s' by (simp_all add: layout_simps)
qed


text \<open>
  C3. On a strand with \<open>N > 0\<close> pixels that satisfies the data-model invariant, and for
  an amount whose reduction \<open>a = amount mod N\<close> is not 0: after \<^verbatim>\<open>scrollForward\<close> every
  pixel \<open>i\<close> with \<open>a \<le> i < N\<close> has the bytes that pixel \<open>i - a\<close> had, and every pixel
  \<open>i < a\<close> holds the fill colour. The call is one block move of \<open>(N - a) * stride\<close>
  bytes from offset 0 to offset \<open>a * stride\<close> followed by the fill loop over the \<open>a\<close>
  leading pixels, the bytes from offset \<open>a * stride\<close> on are the first
  \<open>(N - a) * stride\<close> bytes of the old buffer, and the trace is unchanged: no display
  call.
\<close>

theorem scrollForward_shifts_and_fills:
  fixes amount :: uint16_t and c :: uint32_t
  assumes "wf_strand s" "numLEDs s \<noteq> 0" "unat amount mod unat (numLEDs s) \<noteq> 0"
  defines "N \<equiv> unat (numLEDs s)"
  defines "a \<equiv> unat amount mod unat (numLEDs s)"
  defines "st \<equiv> unat (bytesPerPixel s)"
  shows "(\<forall>i. a \<le> i \<and> i < N \<longrightarrow> pixel_bytes (scrollForward amount c s) i = pixel_bytes s (i - a)) \<and>
    (\<forall>i<a. pixel_holds (scrollForward amount c s) i c) \<and>
    scrollForward amount c s =
      scrollForward_fill (of_nat a) c
        (s\<lparr>pixels := memmove (st * a) 0 ((N - a) * st) (pixels s)\<rparr>) \<and>
    drop (a * st) (pixels (scrollForward amount c s)) = take ((N - a) * st) (pixels s) \<and>
    trace (scrollForward amount c s) = trace s"
proof (intro conjI allI impI)
  note f = scrollForward_facts [OF assms(1-3), where c = c, folded N_def a_def st_def]
  show "pixel_bytes (scrollForward amount c s) i = pixel_bytes s (i - a)" if "a \<le> i \<and> i < N" for i
    using that by (intro f(1)) simp_all
  show "pixel_holds (scrollForward amount c s) i c" if "i < a" for i
    using that by (rule f(2))
  show "scrollForward amount c s =
      scrollForward_fill (of_nat a) c
        (s\<lparr>pixels := memmove (st * a) 0 ((N - a) * st) (pixels s)\<rparr>)"
    unfolding N_def a_def st_def by (rule scrollForward_unfold [OF assms(2,3)])
  show "drop (a * st) (pixels (scrollForward amount c s)) = take ((N - a) * st) (pixels s)"
    by (rule f(3))
  show "trace (scrollForward amount c s) = trace s"
    by (rule f(4))
qed

lemma scrollForward_example:
  "scrollForward 5 0x11223344 (strand_rgbw [1, 2, 3, 4, 5, 6, 7, 8, 9, 10, 11, 12])
     = strand_rgbw [0x33, 0x22, 0x44, 0x11, 0x33, 0x22, 0x44, 0x11, 1, 2, 3, 4]"
  by code_simp

theorem scrollForward_shifts_and_fills_witness:
  "wf_strand (strand_rgbw [1, 2, 3, 4, 5, 6, 7, 8, 9, 10, 11, 12]) \<and>
   numLEDs (strand_rgbw [1, 2, 3, 4, 5, 6, 7, 8, 9, 10, 11, 12]) \<noteq> 0 \<and>
   unat (5 :: uint16_t) mod unat (numLEDs (strand_rgbw [1, 2, 3, 4, 5, 6, 7, 8, 9, 10, 11, 12])) \<noteq> 0 \<and>
   pixel_bytes (scrollForward 5 0x11223344 (strand_rgbw [1, 2, 3, 4, 5, 6, 7, 8, 9, 10, 11, 12])) 2
     = [1, 2, 3, 4] \<and>
   pixel_holds (scrollForward 5 0x11223344 (strand_rgbw [1, 2, 3, 4, 5, 6, 7, 8, 9, 10, 11, 12])) 0
     0x11223344 \<and>
   pixel_holds (scrollForward 5 0x11223344 (strand_rgbw [1, 2, 3, 4, 5, 6, 7, 8, 9, 10, 11, 12])) 1
     0x11223344 \<and>
   trace (scrollForward 5 0x11223344 (strand_rgbw [1, 2, 3, 4, 5, 6, 7, 8, 9, 10, 11, 12])) = []"
proof -
  let ?S = "strand_rgbw [1, 2, 3, 4, 5, 6, 7, 8, 9, 10, 11, 12]"
  have wf: "wf_strand ?S"
    by (simp add: wf_strand_def strand_rgbw_def channel_offsets_def bytesPerPixel_def isRGBW_def)
  have n: "unat (numLEDs ?S) = 3" "numLEDs ?S \<noteq> 0"
    by (simp_all add: strand_rgbw_def)
  have a: "unat (5 :: uint16_t) mod unat (numLEDs ?S) \<noteq> 0" "unat (5 :: uint16_t) mod 3 = 2"
    by (simp_all add: n)
  have b: "pixel_bytes ?S 0 = [1, 2, 3, 4]" "trace ?S = []"
    by (simp_all add: pixel_bytes_def strand_rgbw_def bytesPerPixel_def isRGBW_def)
  note t = scrollForward_shifts_and_fills [OF wf n(2) a(1), where c = "0x11223344", unfolded n(1) a(2)]
  note moved = t [THEN conjunct1, rule_format, of 2]
  note filled = t [THEN conjunct2, THEN conjunct1, rule_format]
  note tr = t [THEN conjunct2, THEN conjunct2, THEN conjunct2, THEN conjunct2]
  have "(0 :: nat) < 2" "(1 :: nat) < 2"
    by simp_all
  from filled [OF this(1)] filled [OF this(2)] moved tr wf n(2) a(1) show ?thesis
    by (simp add: b)
qed

subsection \<open>Backward scroll\<close>

lemma scrollBackward_paint:
  fixes amount :: uint16_t
  assumes "numLEDs s \<noteq> 0" "unat amount mod unat (numLEDs s) \<noteq> 0"
  defines "a \<equiv> unat amount mod unat (numLEDs s)"
  defines "st \<equiv> unat (bytesPerPixel s)"
  shows "scrollBackward amount c s =
     paint (\<lambda>_. c) 0 [unat (numLEDs s) - a..<unat (numLEDs s)]
       (s\<lparr>pixels := memmove 0 (st * a) ((unat (numLEDs s) - a) * st) (pixels s)\<rparr>)"
proof -
  let ?t = "s\<lparr>pixels := memmove 0 (st * a) ((unat (numLEDs s) - a) * st) (pixels s)\<rparr>"
  have "a < unat (numLEDs s)"
    unfolding a_def using assms(1) by (rule scroll_reduced(2))
  then have a: "unat (of_nat a :: uint16_t) = a" "(of_nat a :: uint16_t) < numLEDs s"
    by (rule unat_of_nat16)+
  then have "(of_nat a :: uint16_t) \<le> numLEDs ?t"
    by simp
  then have "scrollBackward_fill (of_nat a) c ?t
      = paint (\<lambda>_. c) 0 [unat (numLEDs ?t) - unat (of_nat a :: uint16_t)..<unat (numLEDs ?t)] ?t"
    by (rule scrollBackward_fill_paint)
  then show ?thesis
    unfolding scrollBackward_unfold [OF assms(1,2), folded a_def st_def]
    by (simp add: a(1))
qed

lemma scrollBackward_facts:
  fixes amount :: uint16_t and c :: uint32_t
  assumes "wf_strand s" "numLEDs s \<noteq> 0" "unat amount mod unat (numLEDs s) \<noteq> 0"
  defines "N \<equiv> unat (numLEDs s)"
  defines "a \<equiv> unat amount mod unat (numLEDs s)"
  defines "st \<equiv> unat (bytesPerPixel s)"
  defines "s' \<equiv> scrollBackward amount c s"
  shows "\<And>i. i < N - a \<Longrightarrow> pixel_bytes s' i = pixel_bytes s (i + a)"
    and "\<And>i. N - a \<le> i \<Longrightarrow> i < N \<Longrightarrow> pixel_holds s' i c"
    and "trace s' = trace s"
    and "wf_strand s'"
    and "numLEDs s' = numLEDs s" "rOffset s' = rOffset s" "gOffset s' = gOffset s"
      "bOffset s' = bOffset s" "wOffset s' = wOffset s"
proof -
  let ?moved = "memmove 0 (st * a) ((N - a) * st) (pixels s)"
  let ?t = "s\<lparr>pixels := ?moved\<rparr>"
  have a: "a < N"
    unfolding a_def N_def using assms(2) by (rule scroll_reduced(2))
  then have aN: "a \<le> unat (numLEDs s)"
    by (simp add: N_def)
  note inb = scroll_move_in_buffer [OF assms(1) aN, folded st_def N_def]
  have len: "length ?moved = length (pixels s)"
    using inb by (intro length_memmove) simp_all
  have wf: "wf_strand ?t"
    using assms(1) len by (rule wf_moved)
  have s': "s' = paint (\<lambda>_. c) 0 [N - a..<N] ?t"
    unfolding s'_def N_def a_def st_def by (rule scrollBackward_paint [OF assms(2,3)])
  have range: "\<forall>j\<in>set [N - a..<N]. j < unat (numLEDs ?t)"
    by (simp add: N_def)
  show "pixel_bytes s' i = pixel_bytes s (i + a)" if "i < N - a" for i
  proof -
    have "pixel_bytes s' i = pixel_bytes ?t i"
      unfolding s' using wf range that by (intro paint_other) simp_all
    also have "\<dots> = pixel_bytes s (i + a)"
      unfolding st_def N_def using assms(1) that by (intro pixel_bytes_moved_down) (simp_all add: N_def)
    finally show ?thesis .
  qed
  show "pixel_holds s' i c" if "N - a \<le> i" "i < N" for i
    unfolding s' using wf range that by (intro paint_holds) simp_all
  show "trace s' = trace s"
    unfolding s' by (simp add: trace_paint_nowait)
  show "wf_strand s'"
    unfolding s' using wf by (simp add: wf_paint)
  show "numLEDs s' = numLEDs s" "rOffset s' = rOffset s" "gOffset s' = gOffset s"
      "bOffset s' = bOffset s" "wOffset s' = wOffset s"
    unfolding s' by (simp_all add: layout_simps)
qed

subsection \<open>Forward, then backward\<close>

text \<open>The channel offsets of a layout cover every byte of a pixel.\<close>

lemma offsets_cover:
  assumes "wf_strand s" "p < unat (bytesPerPixel s)"
  shows "p = unat (rOffset s) \<or> p = unat (gOffset s) \<or> p = unat (bOffset s) \<or>
         (isRGBW s \<and> p = unat (wOffset s))"
proof -
  let ?offs = "map unat (channel_offsets s)"
  let ?st = "unat (bytesPerPixel s)"
  have "distinct ?offs"
    using assms(1) by (simp add: wf_strand_def distinct_map inj_on_def word_unat_eq_iff)
  then have "card (set ?offs) = length ?offs"
    by (rule distinct_card)
  also have "\<dots> = ?st"
    by (simp add: channel_offsets_def bytesPerPixel_def)
  finally have card: "card (set ?offs) = card {0..<?st}"
    by simp
  have "set ?offs \<subseteq> {0..<?st}"
    using assms(1) by (auto simp: wf_strand_def list_all_iff word_less_nat_alt)
  with card have "set ?offs = {0..<?st}"
    by (intro card_subset_eq) simp_all
  with assms(2) have "p \<in> set ?offs"
    by simp
  then show ?thesis
    by (auto simp: channel_offsets_def split: if_splits)
qed

text \<open>So a pixel that holds a colour has its bytes determined by the colour and the layout.\<close>

lemma pixel_holds_unique:
  assumes "wf_strand s" "wf_strand t"
    and "numLEDs t = numLEDs s" "rOffset t = rOffset s" "gOffset t = gOffset s"
      "bOffset t = bOffset s" "wOffset t = wOffset s"
    and "i < unat (numLEDs s)"
    and "pixel_holds s i c" "pixel_holds t i c"
  shows "pixel_bytes t i = pixel_bytes s i"
proof (rule nth_equalityI)
  have lay: "isRGBW t = isRGBW s" "bytesPerPixel t = bytesPerPixel s"
    by (rule layout_cong [OF assms(3-7)])+
  have it: "i < unat (numLEDs t)"
    using assms(8) by (simp add: assms(3))
  show len: "length (pixel_bytes t i) = length (pixel_bytes s i)"
    by (simp add: length_pixel_bytes [OF assms(1,8)] length_pixel_bytes [OF assms(2) it] lay)
  fix p
  assume "p < length (pixel_bytes t i)"
  then have "p < unat (bytesPerPixel s)"
    by (simp add: length_pixel_bytes [OF assms(2) it] lay)
  from offsets_cover [OF assms(1) this] assms(9,10) show "pixel_bytes t i ! p = pixel_bytes s i ! p"
    by (auto simp: pixel_holds_def assms(4-7) lay split: if_splits)
qed


lemma round_trip_facts:
  fixes amount :: uint16_t and c :: uint32_t
  assumes "wf_strand s" "numLEDs s \<noteq> 0"
  defines "N \<equiv> unat (numLEDs s)"
  defines "a \<equiv> unat amount mod unat (numLEDs s)"
  defines "s1 \<equiv> scrollForward amount c s"
  defines "s2 \<equiv> scrollBackward amount c (scrollForward amount c s)"
  shows "\<And>i. i < a \<Longrightarrow> pixel_holds s1 i c"
    and "\<And>i. N - a \<le> i \<Longrightarrow> i < N \<Longrightarrow> pixel_holds s2 i c"
    and "\<And>i. i < N - a \<Longrightarrow> pixel_bytes s2 i = pixel_bytes s i"
    and "wf_strand s2"
    and "numLEDs s2 = numLEDs s" "rOffset s2 = rOffset s" "gOffset s2 = gOffset s"
      "bOffset s2 = bOffset s" "wOffset s2 = wOffset s"
proof -
  have "(\<forall>i<a. pixel_holds s1 i c) \<and> (\<forall>i. N - a \<le> i \<and> i < N \<longrightarrow> pixel_holds s2 i c) \<and>
      (\<forall>i<N - a. pixel_bytes s2 i = pixel_bytes s i) \<and> wf_strand s2 \<and> numLEDs s2 = numLEDs s \<and>
      rOffset s2 = rOffset s \<and> gOffset s2 = gOffset s \<and> bOffset s2 = bOffset s \<and>
      wOffset s2 = wOffset s"
  proof (cases "a = 0")
    case True
    then have "s1 = s" "s2 = s"
      unfolding s1_def s2_def a_def by (simp_all add: scroll_noop)
    with True assms(1) show ?thesis
      by auto
  next
    case False
    then have nz: "unat amount mod unat (numLEDs s) \<noteq> 0"
      by (simp add: a_def)
    note f = scrollForward_facts [OF assms(1,2) nz, where c = c, folded N_def a_def s1_def]
    have nz1: "numLEDs s1 \<noteq> 0" "unat amount mod unat (numLEDs s1) \<noteq> 0"
      using assms(2) nz by (simp_all add: f(6))
    note b = scrollBackward_facts [OF f(5) nz1, where c = c]
    have s2: "s2 = scrollBackward amount c s1"
      by (simp add: s2_def s1_def)
    have "pixel_bytes s2 i = pixel_bytes s i" if "i < N - a" for i
    proof -
      have "pixel_bytes s2 i = pixel_bytes s1 (i + a)"
        using b(1) [of i] that by (simp add: s2 f(6) N_def a_def)
      also have "\<dots> = pixel_bytes s (i + a - a)"
        using that by (intro f(1)) simp_all
      finally show ?thesis by simp
    qed
    moreover have "pixel_holds s2 i c" if "N - a \<le> i" "i < N" for i
      using b(2) [of i] that by (simp add: s2 f(6) N_def a_def)
    moreover have "wf_strand s2"
      using b(4) by (simp add: s2)
    ultimately show ?thesis
      using f(2) by (simp add: s2 b(5-9) f(6-10))
  qed
  then show "\<And>i. i < a \<Longrightarrow> pixel_holds s1 i c"
    and "\<And>i. N - a \<le> i \<Longrightarrow> i < N \<Longrightarrow> pixel_holds s2 i c"
    and "\<And>i. i < N - a \<Longrightarrow> pixel_bytes s2 i = pixel_bytes s i"
    and "wf_strand s2"
    and "numLEDs s2 = numLEDs s" "rOffset s2 = rOffset s" "gOffset s2 = gOffset s"
      "bOffset s2 = bOffset s" "wOffset s2 = wOffset s"
    by simp_all
qed


lemma round_trip_not_restored:
  fixes amount :: uint16_t and c :: uint32_t
  assumes "wf_strand s" "numLEDs s \<noteq> 0"
    and "unat (numLEDs s) - unat amount mod unat (numLEDs s) \<le> i" "i < unat (numLEDs s)"
    and "\<not> pixel_holds s i c"
  shows "pixels (scrollBackward amount c (scrollForward amount c s)) \<noteq> pixels s"
proof
  let ?s2 = "scrollBackward amount c (scrollForward amount c s)"
  note r = round_trip_facts [OF assms(1,2), where amount = amount and c = c]
  assume "pixels ?s2 = pixels s"
  then have "pixel_bytes ?s2 i = pixel_bytes s i"
    by (intro pixel_bytes_cong r(6) r(9))
  then have "pixel_holds ?s2 i c = pixel_holds s i c"
    by (intro pixel_holds_cong r(6-9))
  moreover have "pixel_holds ?s2 i c"
    using assms(3,4) by (rule r(2))
  ultimately show False
    using assms(5) by simp
qed

lemma round_trip_forgets_tail:
  fixes amount :: uint16_t and c :: uint32_t
  assumes "wf_strand s" "numLEDs s \<noteq> 0" "wf_strand t"
    and lay: "numLEDs t = numLEDs s" "rOffset t = rOffset s" "gOffset t = gOffset s"
      "bOffset t = bOffset s" "wOffset t = wOffset s"
    and same: "\<forall>i<unat (numLEDs s) - unat amount mod unat (numLEDs s).
                 pixel_bytes t i = pixel_bytes s i"
    and "i < unat (numLEDs s)"
  shows "pixel_bytes (scrollBackward amount c (scrollForward amount c t)) i
       = pixel_bytes (scrollBackward amount c (scrollForward amount c s)) i"
proof -
  let ?N = "unat (numLEDs s)"
  let ?a = "unat amount mod ?N"
  let ?s2 = "scrollBackward amount c (scrollForward amount c s)"
  let ?t2 = "scrollBackward amount c (scrollForward amount c t)"
  have nt: "numLEDs t \<noteq> 0"
    using assms(2) by (simp add: lay)
  note rs = round_trip_facts [OF assms(1,2), where amount = amount and c = c]
  note rt = round_trip_facts [OF assms(3) nt, where amount = amount and c = c, unfolded lay]
  show ?thesis
  proof (cases "i < ?N - ?a")
    case True
    then have "pixel_bytes ?t2 i = pixel_bytes t i" "pixel_bytes ?s2 i = pixel_bytes s i"
      by (rule rt(3) rs(3))+
    with same True show ?thesis
      by simp
  next
    case False
    then have i: "?N - ?a \<le> i"
      by simp
    have "pixel_holds ?s2 i c" "pixel_holds ?t2 i c"
      using i assms(10) by (rule rs(2) rt(2))+
    with rs(4) rt(4) show ?thesis
      using assms(10) by (intro pixel_holds_unique) (simp_all add: rs(5-9) rt(5-9))
  qed
qed

text \<open>
  C4. On a strand with \<open>N > 0\<close> pixels that satisfies the data-model invariant, with
  \<open>a = amount mod N\<close>: after \<^verbatim>\<open>scrollForward\<close> the \<open>a\<close> pixels nearest index 0 hold the
  fill colour, and after the following \<^verbatim>\<open>scrollBackward\<close> the \<open>a\<close> pixels nearest the last
  index hold it. The round trip gives the first \<open>N - a\<close> pixels their old bytes back,
  but not the last \<open>a\<close>: whenever one of those did not already hold the fill colour,
  the buffer differs from the original, and two strands of the same layout that agree
  on their first \<open>N - a\<close> pixels end with the same pixels, so that nothing of the
  discarded pixels can be recovered from the result.
\<close>

theorem scroll_round_trip_loses_tail:
  fixes amount :: uint16_t and c :: uint32_t
  assumes "wf_strand s" "numLEDs s \<noteq> 0"
  defines "N \<equiv> unat (numLEDs s)"
  defines "a \<equiv> unat amount mod unat (numLEDs s)"
  shows "(\<forall>i<a. pixel_holds (scrollForward amount c s) i c) \<and>
    (\<forall>i. N - a \<le> i \<and> i < N \<longrightarrow>
       pixel_holds (scrollBackward amount c (scrollForward amount c s)) i c) \<and>
    (\<forall>i<N - a. pixel_bytes (scrollBackward amount c (scrollForward amount c s)) i = pixel_bytes s i) \<and>
    ((\<exists>i. N - a \<le> i \<and> i < N \<and> \<not> pixel_holds s i c) \<longrightarrow>
       pixels (scrollBackward amount c (scrollForward amount c s)) \<noteq> pixels s) \<and>
    (\<forall>t. wf_strand t \<and> numLEDs t = numLEDs s \<and> rOffset t = rOffset s \<and> gOffset t = gOffset s \<and>
         bOffset t = bOffset s \<and> wOffset t = wOffset s \<and>
         (\<forall>i<N - a. pixel_bytes t i = pixel_bytes s i) \<longrightarrow>
       (\<forall>i<N. pixel_bytes (scrollBackward amount c (scrollForward amount c t)) i
                = pixel_bytes (scrollBackward amount c (scrollForward amount c s)) i))"
proof (intro conjI allI impI)
  note r = round_trip_facts [OF assms(1,2), where amount = amount and c = c, folded N_def a_def]
  show "pixel_holds (scrollForward amount c s) i c" if "i < a" for i
    using that by (rule r(1))
  show "pixel_holds (scrollBackward amount c (scrollForward amount c s)) i c"
    if "N - a \<le> i \<and> i < N" for i
    using that by (intro r(2)) simp_all
  show "pixel_bytes (scrollBackward amount c (scrollForward amount c s)) i = pixel_bytes s i"
    if "i < N - a" for i
    using that by (rule r(3))
  show "pixels (scrollBackward amount c (scrollForward amount c s)) \<noteq> pixels s"
    if "\<exists>i. N - a \<le> i \<and> i < N \<and> \<not> pixel_holds s i c"
  proof -
    from that obtain i where "N - a \<le> i" "i < N" "\<not> pixel_holds s i c"
      by blast
    then show ?thesis
      unfolding N_def a_def by (intro round_trip_not_restored [OF assms(1,2)])
  qed
  show "pixel_bytes (scrollBackward amount c (scrollForward amount c t)) i
      = pixel_bytes (scrollBackward amount c (scrollForward amount c s)) i"
    if t: "wf_strand t \<and> numLEDs t = numLEDs s \<and> rOffset t = rOffset s \<and> gOffset t = gOffset s \<and>
         bOffset t = bOffset s \<and> wOffset t = wOffset s \<and>
         (\<forall>i<N - a. pixel_bytes t i = pixel_bytes s i)" and i: "i < N" for t i
    using t i unfolding N_def a_def
    by (intro round_trip_forgets_tail [OF assms(1,2)]) simp_all
qed

lemma scroll_round_trip_example:
  "scrollBackward 1 0 (scrollForward 1 0 (strand_rgb [1, 2, 3, 4, 5, 6])) = strand_rgb [1, 2, 3, 0, 0, 0]"
  by code_simp


theorem scroll_round_trip_loses_tail_witness:
  "wf_strand (strand_rgb [1, 2, 3, 4, 5, 6]) \<and> numLEDs (strand_rgb [1, 2, 3, 4, 5, 6]) \<noteq> 0 \<and>
   pixel_holds (scrollForward 1 0 (strand_rgb [1, 2, 3, 4, 5, 6])) 0 0 \<and>
   pixel_holds (scrollBackward 1 0 (scrollForward 1 0 (strand_rgb [1, 2, 3, 4, 5, 6]))) 1 0 \<and>
   pixel_bytes (scrollBackward 1 0 (scrollForward 1 0 (strand_rgb [1, 2, 3, 4, 5, 6]))) 0 = [1, 2, 3] \<and>
   \<not> pixel_holds (strand_rgb [1, 2, 3, 4, 5, 6]) 1 0 \<and>
   pixels (scrollBackward 1 0 (scrollForward 1 0 (strand_rgb [1, 2, 3, 4, 5, 6]))) \<noteq> [1, 2, 3, 4, 5, 6] \<and>
   pixel_bytes (scrollBackward 1 0 (scrollForward 1 0 (strand_rgb [1, 2, 3, 9, 9, 9]))) 1
     = pixel_bytes (scrollBackward 1 0 (scrollForward 1 0 (strand_rgb [1, 2, 3, 4, 5, 6]))) 1"
proof -
  let ?S = "strand_rgb [1, 2, 3, 4, 5, 6]"
  let ?T = "strand_rgb [1, 2, 3, 9, 9, 9]"
  have wf: "wf_strand ?S" "wf_strand ?T"
    by (simp_all add: wf_strand_def strand_rgb_def channel_offsets_def bytesPerPixel_def isRGBW_def)
  have n: "unat (numLEDs ?S) = 2" "numLEDs ?S \<noteq> 0"
    by (simp_all add: strand_rgb_def)
  have a: "unat (1 :: uint16_t) mod 2 = 1"
    by simp
  have b: "pixel_bytes ?S 0 = [1, 2, 3]" "pixel_bytes ?T 0 = [1, 2, 3]" "pixels ?S = [1, 2, 3, 4, 5, 6]"
    by (simp_all add: pixel_bytes_def strand_rgb_def bytesPerPixel_def isRGBW_def)
  have lay: "numLEDs ?T = numLEDs ?S" "rOffset ?T = rOffset ?S" "gOffset ?T = gOffset ?S"
      "bOffset ?T = bOffset ?S" "wOffset ?T = wOffset ?S"
    by (simp_all add: strand_rgb_def)
  have tail: "\<not> pixel_holds ?S 1 0"
    by (simp add: pixel_holds_def pixel_bytes_def strand_rgb_def bytesPerPixel_def isRGBW_def
        Red_def Green_def Blue_def)
  note t = scroll_round_trip_loses_tail [OF wf(1) n(2), where amount = 1 and c = 0,
      unfolded n(1) a]
  note fill1 = t [THEN conjunct1, rule_format, of 0]
  note fill2 = t [THEN conjunct2, THEN conjunct1, rule_format, of 1]
  note kept = t [THEN conjunct2, THEN conjunct2, THEN conjunct1, rule_format, of 0]
  note lost = t [THEN conjunct2, THEN conjunct2, THEN conjunct2, THEN conjunct1, rule_format]
  note indep = t [THEN conjunct2, THEN conjunct2, THEN conjunct2, THEN conjunct2, rule_format,
      of ?T 1]
  have "\<exists>i. 2 - 1 \<le> i \<and> i < 2 \<and> \<not> pixel_holds ?S i 0"
    using tail by (intro exI [of _ 1]) simp
  from lost [OF this] have l: "pixels (scrollBackward 1 0 (scrollForward 1 0 ?S)) \<noteq> [1, 2, 3, 4, 5, 6]"
    by (simp add: b)
  have i: "pixel_bytes (scrollBackward 1 0 (scrollForward 1 0 ?T)) 1
     = pixel_bytes (scrollBackward 1 0 (scrollForward 1 0 ?S)) 1"
    using wf(2) lay b(1,2) by (intro indep) simp_all
  from fill1 fill2 kept l i tail wf(1) n(2) show ?thesis
    by (simp add: b)
qed

end
